theory Spec2Isabelle
  imports Main
begin

section \<open>Data model of package treefs\<close>

text \<open>
  Go strings are byte sequences, so a Go \<^verbatim>\<open>string\<close> is a \<^typ>\<open>string\<close> (a list of
  8-bit characters) and the box-drawing connectors are written as their UTF-8 bytes.
  Go's \<^verbatim>\<open>int\<close> counters are modelled by \<^typ>\<open>int\<close>: a counter is incremented once per
  line held in memory, so it stays far below \<open>2^63\<close>.
\<close>

text \<open>The error value returned by \<^verbatim>\<open>fs.ReadDir\<close>; treefs never inspects it.\<close>

datatype error = ListError string

text \<open>\<^verbatim>\<open>fs.DirEntry\<close>, as far as treefs reads it: the methods \<^verbatim>\<open>Name()\<close> and \<^verbatim>\<open>IsDir()\<close>.\<close>

record DirEntry =
  Name :: string
  IsDir :: bool

text \<open>
  A non-nil \<^verbatim>\<open>fs.FS\<close> is modelled by what \<^verbatim>\<open>fs.ReadDir(fsys, name)\<close> returns for each
  name: an error, or the entries in listing order.
\<close>

type_synonym FS = "string \<Rightarrow> error + DirEntry list"

text \<open>The struct \<^verbatim>\<open>TreeFS\<close>. The field \<open>fsys\<close> is \<open>None\<close> for the nil interface value.\<close>

record TreeFS =
  fsys :: "FS option"
  tree :: "string list"
  pathPrefix :: string
  NDirs :: int
  NFiles :: int
  hidden :: bool
  dirOnly :: bool
  fullPathPrefix :: bool
  level :: int

text \<open>The zero value of \<^verbatim>\<open>TreeFS\<close>.\<close>

definition zeroTreeFS :: TreeFS where
  "zeroTreeFS = \<lparr>fsys = None, tree = [], pathPrefix = [], NDirs = 0, NFiles = 0,
     hidden = False, dirOnly = False, fullPathPrefix = False, level = 0\<rparr>"

definition elbowConnector :: string where
  "elbowConnector = [CHR 0xE2, CHR 0x94, CHR 0x94, CHR 0xE2, CHR 0x94, CHR 0x80, CHR 0xE2, CHR 0x94, CHR 0x80]"

definition teeConnector :: string where
  "teeConnector = [CHR 0xE2, CHR 0x94, CHR 0x9C, CHR 0xE2, CHR 0x94, CHR 0x80, CHR 0xE2, CHR 0x94, CHR 0x80]"

definition pipePrefix :: string where
  "pipePrefix = [CHR 0xE2, CHR 0x94, CHR 0x82] @ ''   ''"

definition spacePrefix :: string where
  "spacePrefix = ''    ''"

section \<open>Library functions used by treefs\<close>

text \<open>\<^verbatim>\<open>strings.HasPrefix\<close>, \<^verbatim>\<open>strings.Contains\<close> and \<^verbatim>\<open>strings.Join\<close>.\<close>

definition strings_HasPrefix :: "string \<Rightarrow> string \<Rightarrow> bool" where
  "strings_HasPrefix s p = (take (length p) s = p)"

fun strings_Contains :: "string \<Rightarrow> string \<Rightarrow> bool" where
  "strings_Contains [] sub = (sub = [])"
| "strings_Contains (c # cs) sub = (strings_HasPrefix (c # cs) sub \<or> strings_Contains cs sub)"

fun strings_Join :: "string list \<Rightarrow> string \<Rightarrow> string" where
  "strings_Join [] sep = []"
| "strings_Join [x] sep = x"
| "strings_Join (x # y # ys) sep = x @ sep @ strings_Join (y # ys) sep"

text \<open>The verb \<^verbatim>\<open>%d\<close> of \<^verbatim>\<open>fmt.Sprintf\<close>: the decimal digits, with a sign when negative.\<close>

fun natToDec :: "nat \<Rightarrow> string" where
  "natToDec n = (if n < 10 then [''0123456789'' ! n]
                 else natToDec (n div 10) @ [''0123456789'' ! (n mod 10)])"

declare natToDec.simps [simp del]

definition itoa :: "int \<Rightarrow> string" where
  "itoa i = (if i < 0 then CHR ''-'' # natToDec (nat (- i)) else natToDec (nat i))"

text \<open>
  \<^verbatim>\<open>path.Clean\<close> of the Go standard library, which \<^verbatim>\<open>path.Join\<close> applies to its
  result. The library keeps a write index into a buffer; here \<open>out\<close> is the buffer up to
  that index, \<open>dotdot\<close> the index where a \<^verbatim>\<open>..\<close> element must stop backtracking, and the
  last argument the part of the path still to read.
\<close>

function backtrack :: "string \<Rightarrow> nat \<Rightarrow> nat \<Rightarrow> nat" where
  "backtrack out dotdot w = (if w > dotdot \<and> out ! w \<noteq> CHR ''/'' then backtrack out dotdot (w - 1) else w)"
  by pat_completeness auto
termination
  by (relation "measure (\<lambda>(out, dotdot, w). w)") auto

declare backtrack.simps [simp del]

function clean_loop :: "bool \<Rightarrow> string \<Rightarrow> nat \<Rightarrow> string \<Rightarrow> string" where
  "clean_loop rooted out dotdot [] = out"
| "clean_loop rooted out dotdot (c # cs) =
    (if c = CHR ''/'' then clean_loop rooted out dotdot cs
     else if c = CHR ''.'' \<and> (cs = [] \<or> hd cs = CHR ''/'') then clean_loop rooted out dotdot cs
     else if c = CHR ''.'' \<and> hd cs = CHR ''.'' \<and> (tl cs = [] \<or> hd (tl cs) = CHR ''/'') then
       (if length out > dotdot
        then clean_loop rooted (take (backtrack out dotdot (length out - 1)) out) dotdot (tl cs)
        else if \<not> rooted
        then (let out' = (if length out > 0 then out @ ''/'' else out) @ ''..''
              in clean_loop rooted out' (length out') (tl cs))
        else clean_loop rooted out dotdot (tl cs))
     else (let out' = (if rooted \<and> length out \<noteq> 1 \<or> \<not> rooted \<and> length out \<noteq> 0
                       then out @ ''/'' else out)
           in clean_loop rooted (out' @ takeWhile (\<lambda>x. x \<noteq> CHR ''/'') (c # cs)) dotdot
                (dropWhile (\<lambda>x. x \<noteq> CHR ''/'') (c # cs))))"
  by pat_completeness auto
termination
proof (relation "measure (\<lambda>(rooted, out, dotdot, p). length p)")
  show "wf (measure (\<lambda>(rooted, out, dotdot, p). length p))" by simp
next
  fix rooted :: bool and out :: string and dotdot :: nat and c :: char and cs :: string
    and x :: string
  assume "c \<noteq> CHR ''/''"
  then have "length (dropWhile (\<lambda>x. x \<noteq> CHR ''/'') (c # cs)) \<le> length cs"
    by (simp add: length_dropWhile_le)
  then show "((rooted, x @ takeWhile (\<lambda>x. x \<noteq> CHR ''/'') (c # cs), dotdot,
               dropWhile (\<lambda>x. x \<noteq> CHR ''/'') (c # cs)), rooted, out, dotdot, c # cs)
             \<in> measure (\<lambda>(rooted, out, dotdot, p). length p)"
    by simp
qed (auto simp: less_Suc_eq_le intro: le_trans [OF diff_le_self])

definition path_Clean :: "string \<Rightarrow> string" where
  "path_Clean p =
     (if p = [] then ''.''
      else (let rooted = (hd p = CHR ''/'');
                out = (if rooted then clean_loop True ''/'' 1 (tl p) else clean_loop False [] 0 p)
            in if out = [] then ''.'' else out))"

text \<open>\<^verbatim>\<open>path.Join\<close> at its two-argument call sites in treefs.\<close>

definition path_Join :: "string \<Rightarrow> string \<Rightarrow> string" where
  "path_Join a b =
     (if a = [] \<and> b = [] then []
      else if a = [] then path_Clean b
      else path_Clean (a @ ''/'' @ b))"

section \<open>Rendering\<close>

text \<open>The methods \<^verbatim>\<open>Graph\<close>, \<^verbatim>\<open>Meta\<close> and \<^verbatim>\<open>String\<close> of \<^verbatim>\<open>TreeFS\<close>.\<close>

definition Graph :: "TreeFS \<Rightarrow> string" where
  "Graph t = strings_Join (tree t) [CHR 0x0A]"

definition Meta :: "TreeFS \<Rightarrow> string" where
  "Meta t =
     (let dirs = (if NDirs t = 1 then ''directory'' else ''directories'')
      in if dirOnly t then itoa (NDirs t) @ '' '' @ dirs
         else (let files = (if NFiles t = 1 then ''file'' else ''files'')
               in itoa (NDirs t) @ '' '' @ dirs @ '', '' @ itoa (NFiles t) @ '' '' @ files))"

definition String :: "TreeFS \<Rightarrow> string" where
  "String t = Graph t @ [CHR 0x0A, CHR 0x0A] @ Meta t"

text \<open>The filter \<^verbatim>\<open>allow\<close>.\<close>

definition allow :: "TreeFS \<Rightarrow> DirEntry \<Rightarrow> bool" where
  "allow t entry =
     (let name = Name entry;
          isHidden = (strings_HasPrefix name ''.'' \<and> name \<noteq> ''.'' \<and> name \<noteq> ''...'')
      in if isHidden \<and> \<not> hidden t then False
         else if dirOnly t \<and> \<not> IsDir entry then False
         else True)"

text \<open>The method \<^verbatim>\<open>append\<close>: one line is added to the tree.\<close>

definition append_tfs :: "TreeFS \<Rightarrow> string \<Rightarrow> string \<Rightarrow> string \<Rightarrow> string \<Rightarrow> TreeFS" where
  "append_tfs t prefix connector dirPath name =
     (if \<not> fullPathPrefix t
      then t\<lparr>tree := tree t @ [prefix @ connector @ '' '' @ name]\<rparr>
      else if pathPrefix t \<noteq> []
      then t\<lparr>tree := tree t @ [prefix @ connector @ '' '' @ pathPrefix t @ ''/'' @ path_Join dirPath name]\<rparr>
      else t\<lparr>tree := tree t @ [prefix @ connector @ '' '' @ path_Join dirPath name]\<rparr>)"

section \<open>The walk\<close>

text \<open>
  \<^verbatim>\<open>treeFSWithPrefix\<close> mutates the \<^verbatim>\<open>TreeFS\<close> it points to and returns an error: the
  model passes the state in and returns the updated state with the error (\<open>None\<close> for
  nil). The recursion follows the file system, which need not be finite, so the model
  carries a bound on the depth of nested calls; the outer \<open>None\<close> is a call that does not
  return a value: the bound was reached, or the nil \<open>fsys\<close> of a zero \<^verbatim>\<open>TreeFS\<close> was
  read, where Go panics.
\<close>

type_synonym walk_result = "(TreeFS \<times> error option) option"

record addDirArgs =
  arg_path :: string
  arg_name :: string
  arg_idx :: int
  arg_numFiles :: int
  arg_lvl :: int
  arg_prefix :: string
  arg_connector :: string

text \<open>\<^verbatim>\<open>addDir\<close>; \<open>rec\<close> is the recursive call of \<^verbatim>\<open>treeFSWithPrefix\<close>.\<close>

definition addDir ::
  "(TreeFS \<Rightarrow> string \<Rightarrow> string \<Rightarrow> int \<Rightarrow> walk_result) \<Rightarrow> TreeFS \<Rightarrow> addDirArgs \<Rightarrow> walk_result" where
  "addDir rec tfs args =
     (let tfs1 = append_tfs tfs (arg_prefix args) (arg_connector args) (arg_path args) (arg_name args);
          prefix1 = (if arg_idx args \<noteq> arg_numFiles args - 1
                     then arg_prefix args @ pipePrefix
                     else arg_prefix args @ spacePrefix)
      in rec tfs1 (path_Join (arg_path args) (arg_name args)) prefix1 (arg_lvl args + 1))"

text \<open>The \<^verbatim>\<open>for i, entry := range entries\<close> loop of \<^verbatim>\<open>treeFSWithPrefix\<close>, from index \<open>i\<close> on.\<close>

fun entries_loop ::
  "(TreeFS \<Rightarrow> string \<Rightarrow> string \<Rightarrow> int \<Rightarrow> walk_result) \<Rightarrow> TreeFS \<Rightarrow> string \<Rightarrow> string \<Rightarrow> int \<Rightarrow> int \<Rightarrow> int
     \<Rightarrow> DirEntry list \<Rightarrow> walk_result" where
  "entries_loop rec tfs name prefix lvl numEntries i [] = Some (tfs, None)"
| "entries_loop rec tfs name prefix lvl numEntries i (entry # rest) =
     (if \<not> allow tfs entry then entries_loop rec tfs name prefix lvl numEntries (i + 1) rest
      else (let connector = (if i = numEntries - 1 then elbowConnector else teeConnector)
            in if IsDir entry
               then (case addDir rec (tfs\<lparr>NDirs := NDirs tfs + 1\<rparr>)
                            \<lparr>arg_path = name, arg_name = Name entry, arg_idx = i,
                             arg_numFiles = numEntries, arg_lvl = lvl, arg_prefix = prefix,
                             arg_connector = connector\<rparr> of
                       None \<Rightarrow> None
                     | Some (tfs1, Some err) \<Rightarrow> Some (tfs1, Some err)
                     | Some (tfs1, None) \<Rightarrow> entries_loop rec tfs1 name prefix lvl numEntries (i + 1) rest)
               else entries_loop rec
                      (append_tfs (tfs\<lparr>NFiles := NFiles tfs + 1\<rparr>) prefix connector name (Name entry))
                      name prefix lvl numEntries (i + 1) rest))"

primrec treeFSWithPrefix :: "nat \<Rightarrow> TreeFS \<Rightarrow> string \<Rightarrow> string \<Rightarrow> int \<Rightarrow> walk_result" where
  "treeFSWithPrefix 0 tfs name prefix lvl = None"
| "treeFSWithPrefix (Suc fuel) tfs name prefix lvl =
     (if level tfs > 0 \<and> lvl = level tfs then Some (tfs, None)
      else (case fsys tfs of
              None \<Rightarrow> None
            | Some f \<Rightarrow>
                (case f name of
                   Inl err \<Rightarrow> Some (tfs, Some err)
                 | Inr entries \<Rightarrow>
                     entries_loop (treeFSWithPrefix fuel) tfs name prefix lvl
                       (int (length entries)) 0 entries)))"

section \<open>Options and constructors\<close>

type_synonym Opt = "TreeFS \<Rightarrow> TreeFS"

definition Hidden :: Opt where
  "Hidden t = t\<lparr>hidden := True\<rparr>"

definition DirOnly :: Opt where
  "DirOnly t = t\<lparr>dirOnly := True\<rparr>"

definition FullPathPrefix :: Opt where
  "FullPathPrefix t = t\<lparr>fullPathPrefix := True\<rparr>"

definition Level :: "int \<Rightarrow> Opt" where
  "Level lvl tfs = (if lvl \<le> 0 then tfs else tfs\<lparr>level := lvl\<rparr>)"

text \<open>
  \<^verbatim>\<open>New\<close>. Go returns the pair \<^verbatim>\<open>(tfs, err)\<close>; the first argument bounds the depth of
  the walk's recursion.
\<close>

definition New :: "nat \<Rightarrow> FS \<Rightarrow> string \<Rightarrow> Opt list \<Rightarrow> walk_result" where
  "New fuel fs name opts =
     (let tfs0 = \<lparr>fsys = Some fs, tree = [name], pathPrefix = [], NDirs = 0, NFiles = 0,
                  hidden = False, dirOnly = False, fullPathPrefix = False, level = 0\<rparr>;
          tfs1 = foldl (\<lambda>t opt. opt t) tfs0 opts
      in if strings_Contains name ''../'' \<or> name = ''.''
         then treeFSWithPrefix fuel (tfs1\<lparr>pathPrefix := name\<rparr>) ''.'' [] 0
         else treeFSWithPrefix fuel tfs1 name [] 0)"

text \<open>The functions \<^verbatim>\<open>Tree\<close>, \<^verbatim>\<open>Graph\<close> and \<^verbatim>\<open>Meta\<close> of the package: the empty string on error.\<close>

definition Tree :: "nat \<Rightarrow> FS \<Rightarrow> string \<Rightarrow> Opt list \<Rightarrow> (string \<times> error option) option" where
  "Tree fuel fs name opts =
     (case New fuel fs name opts of
        None \<Rightarrow> None
      | Some (tfs, Some err) \<Rightarrow> Some ([], Some err)
      | Some (tfs, None) \<Rightarrow> Some (String tfs, None))"

definition Graph_fn :: "nat \<Rightarrow> FS \<Rightarrow> string \<Rightarrow> Opt list \<Rightarrow> (string \<times> error option) option" where
  "Graph_fn fuel fs name opts =
     (case New fuel fs name opts of
        None \<Rightarrow> None
      | Some (tfs, Some err) \<Rightarrow> Some ([], Some err)
      | Some (tfs, None) \<Rightarrow> Some (Graph tfs, None))"

definition Meta_fn :: "nat \<Rightarrow> FS \<Rightarrow> string \<Rightarrow> Opt list \<Rightarrow> (string \<times> error option) option" where
  "Meta_fn fuel fs name opts =
     (case New fuel fs name opts of
        None \<Rightarrow> None
      | Some (tfs, Some err) \<Rightarrow> Some ([], Some err)
      | Some (tfs, None) \<Rightarrow> Some (Meta tfs, None))"

text \<open>\<^verbatim>\<open>Arg\<close> and \<^verbatim>\<open>NewMulti\<close>; the loop starts from the zero \<^verbatim>\<open>TreeFS\<close>.\<close>

record Arg =
  Fsys :: FS
  ArgName :: string
  Opts :: "Opt list"

fun NewMulti_loop :: "nat \<Rightarrow> TreeFS \<Rightarrow> Arg list \<Rightarrow> walk_result" where
  "NewMulti_loop fuel tfs [] = Some (tfs, None)"
| "NewMulti_loop fuel tfs (arg # args) =
     (case New fuel (Fsys arg) (ArgName arg) (Opts arg) of
        None \<Rightarrow> None
      | Some (tfs2, Some err) \<Rightarrow> Some (tfs, Some err)
      | Some (tfs2, None) \<Rightarrow>
          NewMulti_loop fuel
            (tfs\<lparr>tree := tree tfs @ tree tfs2, NDirs := NDirs tfs + NDirs tfs2,
                 NFiles := NFiles tfs + NFiles tfs2\<rparr>) args)"

definition NewMulti :: "nat \<Rightarrow> Arg list \<Rightarrow> walk_result" where
  "NewMulti fuel args = NewMulti_loop fuel zeroTreeFS args"

section \<open>Notions used to state the properties\<close>

text \<open>The options the package exports: \<^verbatim>\<open>Hidden\<close>, \<^verbatim>\<open>DirOnly\<close>, \<^verbatim>\<open>FullPathPrefix\<close> and \<^verbatim>\<open>Level(lvl)\<close>.\<close>

definition package_opt :: "Opt \<Rightarrow> bool" where
  "package_opt opt = (opt = Hidden \<or> opt = DirOnly \<or> opt = FullPathPrefix \<or> (\<exists>lvl. opt = Level lvl))"

text \<open>Two states carry the same file system and the same option fields.\<close>

definition same_options :: "TreeFS \<Rightarrow> TreeFS \<Rightarrow> bool" where
  "same_options t t' =
     (fsys t' = fsys t \<and> pathPrefix t' = pathPrefix t \<and> hidden t' = hidden t \<and>
      dirOnly t' = dirOnly t \<and> fullPathPrefix t' = fullPathPrefix t \<and> level t' = level t)"

text \<open>
  What a walk does to the state: the options stay, lines are only added at the end of the
  tree, the two counters grow by as much as the tree in total, and the file counter stays
  when \<open>dirOnly\<close> is set.
\<close>

definition grows :: "TreeFS \<Rightarrow> TreeFS \<Rightarrow> bool" where
  "grows t t' =
     (same_options t t' \<and> take (length (tree t)) (tree t') = tree t \<and>
      length (tree t) \<le> length (tree t') \<and>
      int (length (tree t')) - int (length (tree t)) = (NDirs t' - NDirs t) + (NFiles t' - NFiles t) \<and>
      NDirs t \<le> NDirs t' \<and> NFiles t \<le> NFiles t' \<and>
      (if dirOnly t then NFiles t' = NFiles t else True))"

text \<open>
  The directories a walk lists. \<open>visits t fs name lvl p\<close>: a call of
  \<^verbatim>\<open>treeFSWithPrefix\<close> for the directory \<open>name\<close> at depth \<open>lvl\<close>, with the options of
  \<open>t\<close>, reads the directory \<open>p\<close> of \<open>fs\<close> unless an error ends the walk before.
\<close>

inductive visits :: "TreeFS \<Rightarrow> FS \<Rightarrow> string \<Rightarrow> int \<Rightarrow> string \<Rightarrow> bool" for t :: TreeFS and fs :: FS where
  visits_here: "\<not> (level t > 0 \<and> lvl = level t) \<Longrightarrow> visits t fs name lvl name"
| visits_below:
    "\<not> (level t > 0 \<and> lvl = level t) \<Longrightarrow> fs name = Inr es \<Longrightarrow> e \<in> set es \<Longrightarrow> allow t e \<Longrightarrow> IsDir e \<Longrightarrow>
     visits t fs (path_Join name (Name e)) (lvl + 1) p \<Longrightarrow> visits t fs name lvl p"

code_pred visits .

section \<open>Sample file systems\<close>

definition mkFile :: "string \<Rightarrow> DirEntry" where
  "mkFile n = \<lparr>Name = n, IsDir = False\<rparr>"

definition mkDir :: "string \<Rightarrow> DirEntry" where
  "mkDir n = \<lparr>Name = n, IsDir = True\<rparr>"

text \<open>The \<^verbatim>\<open>fstest.MapFS\<close> of the package's tests, listed from its root \<^verbatim>\<open>.\<close>\<close>

definition fsA :: FS where
  "fsA p =
     (if p = ''.'' then Inr [mkFile ''a1.test'', mkFile ''a2.test'', mkFile ''a3.test'', mkDir ''b'', mkDir ''c'']
      else if p = ''b'' then Inr [mkFile ''b1.test'', mkFile ''b2.test'', mkFile ''b3.test'', mkDir ''d'']
      else if p = ''b/d'' then Inr [mkFile ''d1.test'']
      else if p = ''c'' then Inr [mkFile ''c1.test'', mkFile ''c2.test'']
      else Inl (ListError p))"

text \<open>A directory \<^verbatim>\<open>b\<close> listed before a file \<^verbatim>\<open>z.txt\<close>: \<^verbatim>\<open>MapFS{"b/d/x.txt", "z.txt"}\<close>.\<close>

definition fsB :: FS where
  "fsB p =
     (if p = ''.'' then Inr [mkDir ''b'', mkFile ''z.txt'']
      else if p = ''b'' then Inr [mkDir ''d'']
      else if p = ''b/d'' then Inr [mkFile ''x.txt'']
      else Inl (ListError p))"

text \<open>A root with a file and a directory \<^verbatim>\<open>b\<close> that cannot be listed.\<close>

definition fsErr :: FS where
  "fsErr p =
     (if p = ''.'' then Inr [mkFile ''a'', mkDir ''b'', mkFile ''c'']
      else Inl (ListError p))"

text \<open>An entry named \<^verbatim>\<open>..\<close> in a listing: \<^verbatim>\<open>MapFS{"..", "...", "x"}\<close>.\<close>

definition fsDots :: FS where
  "fsDots p =
     (if p = ''.'' then Inr [mkFile ''..'', mkFile ''...'', mkFile ''x'']
      else Inl (ListError p))"

text \<open>A file system that, like those of \<^verbatim>\<open>io/fs\<close>, refuses the name \<^verbatim>\<open>..\<close>\<close>

definition fsUp :: FS where
  "fsUp p =
     (if p = ''.'' then Inr [mkFile ''a'']
      else Inl (ListError p))"

text \<open>A root whose entries are all hidden.\<close>

definition fsHidden :: FS where
  "fsHidden p =
     (if p = ''.'' then Inr [mkFile ''.a'', mkDir ''.git'']
      else Inl (ListError p))"

section \<open>The call of the walk inside \<^verbatim>\<open>New\<close>\<close>

text \<open>The directory \<^verbatim>\<open>New\<close> starts the walk from, and the state it passes to the walk.\<close>

definition walk_root :: "string \<Rightarrow> string" where
  "walk_root name = (if strings_Contains name ''../'' \<or> name = ''.'' then ''.'' else name)"

definition New_state :: "FS \<Rightarrow> string \<Rightarrow> Opt list \<Rightarrow> TreeFS" where
  "New_state fs name opts =
     (let tfs1 = foldl (\<lambda>t opt. opt t)
                   \<lparr>fsys = Some fs, tree = [name], pathPrefix = [], NDirs = 0, NFiles = 0,
                    hidden = False, dirOnly = False, fullPathPrefix = False, level = 0\<rparr> opts
      in if strings_Contains name ''../'' \<or> name = ''.'' then tfs1\<lparr>pathPrefix := name\<rparr> else tfs1)"

section \<open>Notions about the lines of a tree\<close>

text \<open>The name \<^verbatim>\<open>append\<close> puts after the connector, for an entry \<open>name\<close> of the directory \<open>dirPath\<close>.\<close>

definition displayed_name :: "TreeFS \<Rightarrow> string \<Rightarrow> string \<Rightarrow> string" where
  "displayed_name t dirPath name =
     (if \<not> fullPathPrefix t then name
      else if pathPrefix t \<noteq> [] then pathPrefix t @ ''/'' @ path_Join dirPath name
      else path_Join dirPath name)"

text \<open>The lines a walk added to the tree of \<open>t\<close> on the way to \<open>t'\<close>.\<close>

definition added :: "TreeFS \<Rightarrow> TreeFS \<Rightarrow> string list" where
  "added t t' = drop (length (tree t)) (tree t')"

text \<open>
  \<open>line\<close> is the line of an entry that the filter lets through, in the listing of a
  directory that the walk from \<open>name\<close> at depth \<open>lvl\<close> visits: some prefix, a connector, a
  space and the displayed name of the entry.
\<close>

definition entry_line :: "TreeFS \<Rightarrow> FS \<Rightarrow> string \<Rightarrow> int \<Rightarrow> string \<Rightarrow> bool" where
  "entry_line t fs name lvl line =
     (\<exists>pre conn dir es e.
        visits t fs name lvl dir \<and> fs dir = Inr es \<and> e \<in> set es \<and> allow t e \<and>
        (conn = elbowConnector \<or> conn = teeConnector) \<and>
        line = pre @ conn @ '' '' @ displayed_name t dir (Name e))"

section \<open>The traversal as the specification describes it\<close>

text \<open>
  The filter policy in the words of the specification, with the exemption list the code
  has: an entry is excluded when its name starts with a dot, is neither \<^verbatim>\<open>.\<close> nor
  \<^verbatim>\<open>...\<close>, and hidden entries are not included; or when only directories are wanted and
  the entry is not a directory.
\<close>

definition excluded :: "TreeFS \<Rightarrow> DirEntry \<Rightarrow> bool" where
  "excluded t e =
     ((strings_HasPrefix (Name e) ''.'' \<and> Name e \<notin> {''.'', ''...''} \<and> \<not> hidden t) \<or>
      (dirOnly t \<and> \<not> IsDir e))"

text \<open>
  A displayed entry: the depth of the listing it was found in, the directory listed, and
  the entry.
\<close>

type_synonym item = "int \<times> string \<times> DirEntry"

definition item_depth :: "item \<Rightarrow> int" where
  "item_depth it = fst it"

definition item_dir :: "item \<Rightarrow> string" where
  "item_dir it = fst (snd it)"

definition item_entry :: "item \<Rightarrow> DirEntry" where
  "item_entry it = snd (snd it)"

text \<open>
  The traversal of the specification, as a function of the file system and the options
  alone, to be compared with the walk of the source: depth first and in pre-order, it
  lists a directory, drops the excluded entries, displays each remaining entry in listing
  order and, when the entry is a directory, goes on with its contents before the next
  entry; it does not list a directory at the depth of a positive limit; a listing error
  ends it at once. The result is the entries displayed, in the order of their lines, and
  the error if one ended the traversal. As for the walk, the first argument bounds the
  depth of the nesting, and \<open>None\<close> says that the bound was reached.
\<close>

fun displayed_entries ::
  "(string \<Rightarrow> int \<Rightarrow> (item list \<times> error option) option) \<Rightarrow> string \<Rightarrow> int \<Rightarrow> DirEntry list
     \<Rightarrow> (item list \<times> error option) option" where
  "displayed_entries sub name lvl [] = Some ([], None)"
| "displayed_entries sub name lvl (e # es) =
     (if IsDir e
      then (case sub (path_Join name (Name e)) (lvl + 1) of
              None \<Rightarrow> None
            | Some (below, Some err) \<Rightarrow> Some ((lvl, name, e) # below, Some err)
            | Some (below, None) \<Rightarrow>
                (case displayed_entries sub name lvl es of
                   None \<Rightarrow> None
                 | Some (rest, r) \<Rightarrow> Some ((lvl, name, e) # below @ rest, r)))
      else (case displayed_entries sub name lvl es of
              None \<Rightarrow> None
            | Some (rest, r) \<Rightarrow> Some ((lvl, name, e) # rest, r)))"

primrec displayed :: "nat \<Rightarrow> TreeFS \<Rightarrow> FS \<Rightarrow> string \<Rightarrow> int \<Rightarrow> (item list \<times> error option) option" where
  "displayed 0 t fs name lvl = None"
| "displayed (Suc n) t fs name lvl =
     (if 0 < level t \<and> lvl = level t then Some ([], None)
      else (case fs name of
              Inl err \<Rightarrow> Some ([], Some err)
            | Inr es \<Rightarrow> displayed_entries (displayed n t fs) name lvl (filter (\<lambda>e. \<not> excluded t e) es)))"

text \<open>
  \<open>line\<close> displays the item: it ends with a connector, a space and the displayed name of
  the entry.
\<close>

definition shows_entry :: "TreeFS \<Rightarrow> string \<Rightarrow> item \<Rightarrow> bool" where
  "shows_entry t line it =
     (\<exists>pre conn. (conn = elbowConnector \<or> conn = teeConnector) \<and>
        line = pre @ conn @ '' '' @ displayed_name t (item_dir it) (Name (item_entry it)))"

text \<open>The numbers of directories and of files among the displayed entries.\<close>

definition count_dirs :: "item list \<Rightarrow> int" where
  "count_dirs its = int (length (filter (\<lambda>it. IsDir (item_entry it)) its))"

definition count_files :: "item list \<Rightarrow> int" where
  "count_files its = int (length (filter (\<lambda>it. \<not> IsDir (item_entry it)) its))"

text \<open>The test file system of the package with hidden files at every depth.\<close>

definition fsH :: FS where
  "fsH p =
     (if p = ''.'' then Inr [mkFile ''.hidden1'', mkFile ''a1.test'', mkDir ''b'']
      else if p = ''b'' then Inr [mkFile ''.hidden1'', mkFile ''b1.test'', mkDir ''d'']
      else if p = ''b/d'' then Inr [mkFile ''.hidden1'', mkFile ''d1.test'']
      else Inl (ListError p))"

text \<open>A directory \<^verbatim>\<open>b/d\<close>, two levels down, that cannot be listed.\<close>

definition fsErr2 :: FS where
  "fsErr2 p =
     (if p = ''.'' then Inr [mkFile ''a'', mkDir ''b'', mkFile ''c'']
      else if p = ''b'' then Inr [mkFile ''b1'', mkDir ''d'', mkFile ''e'']
      else Inl (ListError p))"

text \<open>
  \<open>walk_matches t r ref\<close>: the walk started in the state \<open>t\<close> returned \<open>r\<close> as the
  traversal \<open>ref\<close> says: no value when the traversal has none; otherwise the error of the
  traversal, beside a state that has the options of \<open>t\<close>, one added line for each
  displayed entry, in order, and the counters raised by the numbers of displayed
  directories and files.
\<close>

definition walk_matches :: "TreeFS \<Rightarrow> walk_result \<Rightarrow> (item list \<times> error option) option \<Rightarrow> bool" where
  "walk_matches t r ref =
     (case ref of
        None \<Rightarrow> r = None
      | Some (its, err) \<Rightarrow>
          (\<exists>t'. r = Some (t', err) \<and> grows t t' \<and> list_all2 (shows_entry t) (added t t') its \<and>
                NDirs t' = NDirs t + count_dirs its \<and> NFiles t' = NFiles t + count_files its))"

text \<open>
  When the traversal ends with an error, it is the error of the listing of the root, with
  nothing displayed, or of the listing of the directory displayed last.
\<close>

definition failed_at :: "FS \<Rightarrow> string \<Rightarrow> item list \<Rightarrow> error \<Rightarrow> bool" where
  "failed_at fs name its err =
     (if its = [] then fs name = Inl err
      else IsDir (item_entry (last its)) \<and>
           fs (path_Join (item_dir (last its)) (Name (item_entry (last its)))) = Inl err)"

text \<open>
  \<open>deep d t fs name lvl\<close>: below the directory \<open>name\<close> at depth \<open>lvl\<close>, the directories
  that the filter lets through nest at most \<open>d\<close> deep, counted down to the depth of a
  positive limit and to directories that cannot be listed. It is a property of the file
  system and the options alone.
\<close>

primrec deep :: "nat \<Rightarrow> TreeFS \<Rightarrow> FS \<Rightarrow> string \<Rightarrow> int \<Rightarrow> bool" where
  "deep 0 t fs name lvl = False"
| "deep (Suc d) t fs name lvl =
     (if 0 < level t \<and> lvl = level t then True
      else (case fs name of
              Inl err \<Rightarrow> True
            | Inr es \<Rightarrow>
                list_all (\<lambda>e. if excluded t e then True
                               else if IsDir e then deep d t fs (path_Join name (Name e)) (lvl + 1)
                               else True) es))"


section \<open>Auxiliary lemmas\<close>

subsection \<open>Steps of the loop\<close>

lemma addDir_record:
  "addDir rec tfs \<lparr>arg_path = p, arg_name = n, arg_idx = i, arg_numFiles = k, arg_lvl = l,
      arg_prefix = pre, arg_connector = c\<rparr> =
   rec (append_tfs tfs pre c p n) (path_Join p n)
     (if i \<noteq> k - 1 then pre @ pipePrefix else pre @ spacePrefix) (l + 1)"
  by (cases "i = k - 1") (simp_all add: addDir_def)

lemma entries_loop_skip:
  "\<not> allow t x \<Longrightarrow>
   entries_loop rec t name prefix lvl num i (x # xs) = entries_loop rec t name prefix lvl num (i + 1) xs"
  by simp

lemma entries_loop_file:
  "allow t x \<Longrightarrow> \<not> IsDir x \<Longrightarrow>
   entries_loop rec t name prefix lvl num i (x # xs) =
   entries_loop rec
     (append_tfs (t\<lparr>NFiles := NFiles t + 1\<rparr>) prefix
        (if i = num - 1 then elbowConnector else teeConnector) name (Name x))
     name prefix lvl num (i + 1) xs"
  by (simp add: Let_def)

lemma entries_loop_dir:
  "allow t x \<Longrightarrow> IsDir x \<Longrightarrow>
   entries_loop rec t name prefix lvl num i (x # xs) =
   (case rec (append_tfs (t\<lparr>NDirs := NDirs t + 1\<rparr>) prefix
                (if i = num - 1 then elbowConnector else teeConnector) name (Name x))
           (path_Join name (Name x))
           (if i \<noteq> num - 1 then prefix @ pipePrefix else prefix @ spacePrefix) (lvl + 1) of
      None \<Rightarrow> None
    | Some (t1, Some err) \<Rightarrow> Some (t1, Some err)
    | Some (t1, None) \<Rightarrow> entries_loop rec t1 name prefix lvl num (i + 1) xs)"
  by (simp add: Let_def addDir_record)

subsection \<open>What a walk does to the state\<close>

lemma grows_refl: "grows t t"
  by (simp add: grows_def same_options_def)

lemma grows_trans: "grows a b \<Longrightarrow> grows b c \<Longrightarrow> grows a c"
proof -
  assume ab: "grows a b" and bc: "grows b c"
  have "take (length (tree a)) (tree c) = take (length (tree a)) (take (length (tree b)) (tree c))"
    using ab by (simp add: grows_def min_def)
  also have "\<dots> = tree a" using ab bc by (simp add: grows_def)
  finally have "take (length (tree a)) (tree c) = tree a" .
  with ab bc show ?thesis
    by (auto simp: grows_def same_options_def split: if_splits)
qed

lemma allow_same: "same_options t t' \<Longrightarrow> allow t' e = allow t e"
  by (auto simp: allow_def same_options_def Let_def)

lemma grows_file:
  "allow t e \<Longrightarrow> \<not> IsDir e \<Longrightarrow> grows t (append_tfs (t\<lparr>NFiles := NFiles t + 1\<rparr>) p c d n)"
  by (auto simp: grows_def same_options_def append_tfs_def allow_def Let_def split: if_splits)

lemma grows_dir: "grows t (append_tfs (t\<lparr>NDirs := NDirs t + 1\<rparr>) p c d n)"
  by (auto simp: grows_def same_options_def append_tfs_def)

lemma entries_loop_grows:
  assumes rec: "\<And>t name prefix lvl t' e. rec t name prefix lvl = Some (t', e) \<Longrightarrow> grows t t'"
  shows "entries_loop rec t name prefix lvl num i es = Some (t', e) \<Longrightarrow> grows t t'"
proof (induction es arbitrary: t i)
  case Nil
  then show ?case by (simp add: grows_refl)
next
  case (Cons x xs)
  show ?case
  proof (cases "allow t x")
    case False
    with Cons show ?thesis by simp
  next
    case True
    show ?thesis
    proof (cases "IsDir x")
      case False
      from Cons.prems have "entries_loop rec
              (append_tfs (t\<lparr>NFiles := NFiles t + 1\<rparr>) prefix
                 (if i = num - 1 then elbowConnector else teeConnector) name (Name x))
              name prefix lvl num (i + 1) xs = Some (t', e)"
        by (simp only: entries_loop_file [OF True False])
      from Cons.IH [OF this] grows_file [OF True False] show ?thesis
        by (rule grows_trans [rotated])
    next
      case dir: True
      let ?call = "rec (append_tfs (t\<lparr>NDirs := NDirs t + 1\<rparr>) prefix
              (if i = num - 1 then elbowConnector else teeConnector) name (Name x))
             (path_Join name (Name x))
             (if i \<noteq> num - 1 then prefix @ pipePrefix else prefix @ spacePrefix) (lvl + 1)"
      from Cons.prems obtain t2 e2 where c: "?call = Some (t2, e2)"
        and rest: "(e2 \<noteq> None \<and> t' = t2 \<and> e = e2) \<or>
                   (e2 = None \<and> entries_loop rec t2 name prefix lvl num (i + 1) xs = Some (t', e))"
        unfolding entries_loop_dir [OF True dir] by (auto split: option.splits)
      have g1: "grows t t2"
        using grows_trans [OF grows_dir rec [OF c]] .
      from rest show ?thesis
      proof
        assume "e2 \<noteq> None \<and> t' = t2 \<and> e = e2"
        with g1 show ?thesis by simp
      next
        assume "e2 = None \<and> entries_loop rec t2 name prefix lvl num (i + 1) xs = Some (t', e)"
        then have "grows t2 t'" using Cons.IH by blast
        with g1 show ?thesis by (rule grows_trans)
      qed
    qed
  qed
qed

lemma treeFSWithPrefix_Suc_cases:
  assumes "treeFSWithPrefix (Suc n) t name prefix lvl = Some (t', e)"
  obtains (stop) "level t > 0" "lvl = level t" "t' = t" "e = None"
  | (fail) f err where "\<not> (level t > 0 \<and> lvl = level t)" "fsys t = Some f" "f name = Inl err"
      "t' = t" "e = Some err"
  | (list) f es where "\<not> (level t > 0 \<and> lvl = level t)" "fsys t = Some f" "f name = Inr es"
      "entries_loop (treeFSWithPrefix n) t name prefix lvl (int (length es)) 0 es = Some (t', e)"
  using assms by (auto split: if_splits option.splits sum.splits)

lemma treeFSWithPrefix_grows:
  "treeFSWithPrefix n t name prefix lvl = Some (t', e) \<Longrightarrow> grows t t'"
proof (induction n arbitrary: t name prefix lvl t' e)
  case 0
  then show ?case by simp
next
  case (Suc n)
  from Suc.prems show ?case
  proof (cases rule: treeFSWithPrefix_Suc_cases)
    case stop
    then show ?thesis by (simp add: grows_refl)
  next
    case (fail f err)
    then show ?thesis by (simp add: grows_refl)
  next
    case (list f es)
    from list(4) show ?thesis
    proof (rule entries_loop_grows [rotated])
      show "\<And>t name prefix lvl t' e. treeFSWithPrefix n t name prefix lvl = Some (t', e) \<Longrightarrow> grows t t'"
        by (rule Suc.IH)
    qed
  qed
qed

subsection \<open>Options and the state \<^verbatim>\<open>New\<close> starts from\<close>

lemma New_walk: "New fuel fs name opts = treeFSWithPrefix fuel (New_state fs name opts) (walk_root name) [] 0"
  by (simp add: New_def New_state_def walk_root_def Let_def)

lemma package_opt_frame:
  assumes "package_opt opt"
  shows "fsys (opt t) = fsys t \<and> tree (opt t) = tree t \<and> pathPrefix (opt t) = pathPrefix t \<and>
         NDirs (opt t) = NDirs t \<and> NFiles (opt t) = NFiles t \<and>
         (dirOnly t \<or> opt = DirOnly \<longleftrightarrow> dirOnly (opt t)) \<and>
         (fullPathPrefix t \<or> opt = FullPathPrefix \<longleftrightarrow> fullPathPrefix (opt t))"
proof -
  have ne: "Hidden \<noteq> DirOnly" "FullPathPrefix \<noteq> DirOnly" "\<And>l. Level l \<noteq> DirOnly"
    "Hidden \<noteq> FullPathPrefix" "DirOnly \<noteq> FullPathPrefix" "\<And>l. Level l \<noteq> FullPathPrefix"
    by (auto simp: fun_eq_iff Hidden_def DirOnly_def FullPathPrefix_def Level_def
          intro!: exI [of _ zeroTreeFS] simp: zeroTreeFS_def)
  from assms show ?thesis
    unfolding package_opt_def
    by (elim disjE exE; insert ne; simp; simp add: Hidden_def DirOnly_def FullPathPrefix_def Level_def)
qed

lemma package_opts_foldl:
  assumes "\<forall>opt \<in> set opts. package_opt opt"
  shows "fsys (foldl (\<lambda>t opt. opt t) t opts) = fsys t \<and>
         tree (foldl (\<lambda>t opt. opt t) t opts) = tree t \<and>
         pathPrefix (foldl (\<lambda>t opt. opt t) t opts) = pathPrefix t \<and>
         NDirs (foldl (\<lambda>t opt. opt t) t opts) = NDirs t \<and>
         NFiles (foldl (\<lambda>t opt. opt t) t opts) = NFiles t \<and>
         (dirOnly (foldl (\<lambda>t opt. opt t) t opts) \<longleftrightarrow> dirOnly t \<or> DirOnly \<in> set opts) \<and>
         (fullPathPrefix (foldl (\<lambda>t opt. opt t) t opts) \<longleftrightarrow> fullPathPrefix t \<or> FullPathPrefix \<in> set opts)"
  using assms
proof (induction opts arbitrary: t)
  case Nil
  then show ?case by simp
next
  case (Cons opt opts)
  from Cons.prems have p: "package_opt opt" and ps: "\<forall>opt \<in> set opts. package_opt opt"
    by simp_all
  show ?case
    using Cons.IH [OF ps, of "opt t"] package_opt_frame [OF p, of t] by auto
qed

lemma New_state_fields:
  assumes "\<forall>opt \<in> set opts. package_opt opt"
  shows "fsys (New_state fs name opts) = Some fs \<and> tree (New_state fs name opts) = [name] \<and>
         NDirs (New_state fs name opts) = 0 \<and> NFiles (New_state fs name opts) = 0 \<and>
         pathPrefix (New_state fs name opts) =
           (if strings_Contains name ''../'' \<or> name = ''.'' then name else []) \<and>
         (dirOnly (New_state fs name opts) \<longleftrightarrow> DirOnly \<in> set opts) \<and>
         (fullPathPrefix (New_state fs name opts) \<longleftrightarrow> FullPathPrefix \<in> set opts)"
  using package_opts_foldl [OF assms,
      of "\<lparr>fsys = Some fs, tree = [name], pathPrefix = [], NDirs = 0, NFiles = 0,
           hidden = False, dirOnly = False, fullPathPrefix = False, level = 0\<rparr>"]
  by (simp add: New_state_def Let_def)

lemma New_grows:
  "New fuel fs name opts = Some (tfs, err) \<Longrightarrow> grows (New_state fs name opts) tfs"
  unfolding New_walk by (rule treeFSWithPrefix_grows)

subsection \<open>The walk on the sample file systems\<close>

lemmas sample_defs = mkFile_def mkDir_def New_def allow_def append_tfs_def addDir_def
  strings_HasPrefix_def Let_def DirOnly_def Hidden_def FullPathPrefix_def Level_def
  path_Join_def path_Clean_def

lemma New_fsB_DirOnly:
  "New 3 fsB ''.'' [DirOnly] =
     Some (\<lparr>fsys = Some fsB,
             tree = [''.'', teeConnector @ '' b'', pipePrefix @ elbowConnector @ '' d''],
             pathPrefix = ''.'', NDirs = 2, NFiles = 0, hidden = False, dirOnly = True,
             fullPathPrefix = False, level = 0\<rparr>, None)"
  by (simp add: sample_defs fsB_def numeral_3_eq_3)

lemma New_fsDots:
  "New 1 fsDots ''.'' [] =
     Some (\<lparr>fsys = Some fsDots,
             tree = [''.'', teeConnector @ '' ...'', elbowConnector @ '' x''],
             pathPrefix = ''.'', NDirs = 0, NFiles = 2, hidden = False, dirOnly = False,
             fullPathPrefix = False, level = 0\<rparr>, None)"
  by (simp add: sample_defs fsDots_def)

subsection \<open>A larger bound does not change a result\<close>

lemma entries_loop_mono:
  assumes rec: "\<And>t name prefix lvl r. rec t name prefix lvl = Some r \<Longrightarrow> rec' t name prefix lvl = Some r"
  shows "entries_loop rec t name prefix lvl num i es = Some r \<Longrightarrow>
         entries_loop rec' t name prefix lvl num i es = Some r"
proof (induction es arbitrary: t i)
  case Nil
  then show ?case by simp
next
  case (Cons x xs)
  show ?case
  proof (cases "allow t x")
    case False
    with Cons show ?thesis by simp
  next
    case True
    show ?thesis
    proof (cases "IsDir x")
      case False
      with True Cons show ?thesis by (simp add: entries_loop_file)
    next
      case dir: True
      let ?call = "\<lambda>rec. rec (append_tfs (t\<lparr>NDirs := NDirs t + 1\<rparr>) prefix
              (if i = num - 1 then elbowConnector else teeConnector) name (Name x))
             (path_Join name (Name x))
             (if i \<noteq> num - 1 then prefix @ pipePrefix else prefix @ spacePrefix) (lvl + 1)"
      from Cons.prems obtain t2 e2 where c: "?call rec = Some (t2, e2)"
        unfolding entries_loop_dir [OF True dir] by (auto split: option.splits)
      then have c': "?call rec' = Some (t2, e2)" by (rule rec)
      from Cons.prems c Cons.IH show ?thesis
        unfolding entries_loop_dir [OF True dir] c' by (cases e2) auto
    qed
  qed
qed

lemma treeFSWithPrefix_Suc_mono:
  "treeFSWithPrefix n t name prefix lvl = Some r \<Longrightarrow> treeFSWithPrefix (Suc n) t name prefix lvl = Some r"
proof (induction n arbitrary: t name prefix lvl r)
  case 0
  then show ?case by simp
next
  case (Suc n)
  have step: "\<And>t name prefix lvl num i es r.
      entries_loop (treeFSWithPrefix n) t name prefix lvl num i es = Some r \<Longrightarrow>
      entries_loop (treeFSWithPrefix (Suc n)) t name prefix lvl num i es = Some r"
    by (rule entries_loop_mono [of "treeFSWithPrefix n"]) (rule Suc.IH)
  from Suc.prems show ?case
    by (auto simp del: entries_loop.simps split: if_splits option.splits sum.splits dest: step)
qed

lemma treeFSWithPrefix_mono:
  "treeFSWithPrefix n t name prefix lvl = Some r \<Longrightarrow> n \<le> m \<Longrightarrow>
   treeFSWithPrefix m t name prefix lvl = Some r"
  by (induction m) (auto simp: le_Suc_eq dest: treeFSWithPrefix_Suc_mono simp del: treeFSWithPrefix.simps)

lemma New_mono: "New n fs name opts = Some r \<Longrightarrow> n \<le> m \<Longrightarrow> New m fs name opts = Some r"
  unfolding New_walk by (rule treeFSWithPrefix_mono)

subsection \<open>The loop of \<^verbatim>\<open>NewMulti\<close>\<close>

lemma NewMulti_loop_all_succeed:
  assumes "list_all2 (\<lambda>a r. New fuel (Fsys a) (ArgName a) (Opts a) = Some (r, None)) args rs"
  shows "NewMulti_loop fuel t args =
           Some (t\<lparr>tree := tree t @ concat (map tree rs),
                   NDirs := NDirs t + sum_list (map NDirs rs),
                   NFiles := NFiles t + sum_list (map NFiles rs)\<rparr>, None)"
  using assms
proof (induction args rs arbitrary: t rule: list_all2_induct)
  case Nil
  then show ?case by simp
next
  case (Cons a r args rs)
  then show ?case by (simp add: add.assoc)
qed

subsection \<open>Counts and lines\<close>

lemma New_counts:
  assumes "\<forall>opt \<in> set opts. package_opt opt" and "New fuel fs name opts = Some (tfs, err)"
  shows "take 1 (tree tfs) = [name] \<and> NDirs tfs + NFiles tfs = int (length (tree tfs)) - 1 \<and>
         0 \<le> NDirs tfs \<and> 0 \<le> NFiles tfs"
proof -
  from assms(2) have "grows (New_state fs name opts) tfs"
    by (rule New_grows)
  with New_state_fields [OF assms(1), of fs name] show ?thesis
    by (auto simp: grows_def)
qed

lemma New_fsA:
  "New 3 fsA ''.'' [] =
     Some (\<lparr>fsys = Some fsA,
             tree = [''.'', teeConnector @ '' a1.test'', teeConnector @ '' a2.test'',
                     teeConnector @ '' a3.test'', teeConnector @ '' b'',
                     pipePrefix @ teeConnector @ '' b1.test'',
                     pipePrefix @ teeConnector @ '' b2.test'',
                     pipePrefix @ teeConnector @ '' b3.test'',
                     pipePrefix @ elbowConnector @ '' d'',
                     pipePrefix @ spacePrefix @ elbowConnector @ '' d1.test'',
                     elbowConnector @ '' c'',
                     spacePrefix @ teeConnector @ '' c1.test'',
                     spacePrefix @ elbowConnector @ '' c2.test''],
             pathPrefix = ''.'', NDirs = 3, NFiles = 9, hidden = False, dirOnly = False,
             fullPathPrefix = False, level = 0\<rparr>, None)"
  by (simp add: sample_defs fsA_def numeral_3_eq_3)

lemma entries_loop_none_allowed:
  "\<forall>e \<in> set es. \<not> allow t e \<Longrightarrow> entries_loop rec t name prefix lvl num i es = Some (t, None)"
  by (induction es arbitrary: i) simp_all

subsection \<open>A walk under a depth limit returns\<close>

lemma same_options_refl: "same_options t t"
  by (simp add: same_options_def)

lemma same_options_trans: "same_options a b \<Longrightarrow> same_options b c \<Longrightarrow> same_options a c"
  by (simp add: same_options_def)

lemma grows_same_options: "grows t t' \<Longrightarrow> same_options t t'"
  by (simp add: grows_def)

lemma entries_loop_returns:
  assumes total: "\<And>t1 nm pre. same_options t0 t1 \<Longrightarrow> \<exists>r. rec t1 nm pre (lvl + 1) = Some r"
    and g: "\<And>t nm pre l t' e. rec t nm pre l = Some (t', e) \<Longrightarrow> grows t t'"
  shows "same_options t0 t \<Longrightarrow> \<exists>r. entries_loop rec t name prefix lvl num i es = Some r"
proof (induction es arbitrary: t i)
  case Nil
  then show ?case by simp
next
  case (Cons x xs)
  show ?case
  proof (cases "allow t x")
    case False
    with Cons show ?thesis by simp
  next
    case True
    show ?thesis
    proof (cases "IsDir x")
      case False
      have "same_options t0 (append_tfs (t\<lparr>NFiles := NFiles t + 1\<rparr>) prefix
              (if i = num - 1 then elbowConnector else teeConnector) name (Name x))"
        using Cons.prems grows_same_options [OF grows_file [OF True False]]
        by (rule same_options_trans)
      from Cons.IH [OF this] show ?thesis
        by (simp only: entries_loop_file [OF True False])
    next
      case dir: True
      let ?t1 = "append_tfs (t\<lparr>NDirs := NDirs t + 1\<rparr>) prefix
              (if i = num - 1 then elbowConnector else teeConnector) name (Name x)"
      let ?call = "rec ?t1 (path_Join name (Name x))
             (if i \<noteq> num - 1 then prefix @ pipePrefix else prefix @ spacePrefix) (lvl + 1)"
      have s1: "same_options t0 ?t1"
        using Cons.prems grows_same_options [OF grows_dir] by (rule same_options_trans)
      from total [OF s1] obtain t2 e2 where c: "?call = Some (t2, e2)"
        by (metis surj_pair)
      have "same_options t0 t2"
        using s1 grows_same_options [OF g [OF c]] by (rule same_options_trans)
      from Cons.IH [OF this] show ?thesis
        unfolding entries_loop_dir [OF True dir] c by (cases e2) simp_all
    qed
  qed
qed

lemma treeFSWithPrefix_returns_within_level:
  "fsys t \<noteq> None \<Longrightarrow> 0 < level t \<Longrightarrow> lvl \<le> level t \<Longrightarrow> nat (level t - lvl) < n \<Longrightarrow>
   \<exists>r. treeFSWithPrefix n t name prefix lvl = Some r"
proof (induction n arbitrary: t name prefix lvl)
  case 0
  then show ?case by simp
next
  case (Suc n)
  from Suc.prems(1) obtain f where f: "fsys t = Some f" by auto
  show ?case
  proof (cases "lvl = level t")
    case True
    with Suc.prems show ?thesis by simp
  next
    case False
    show ?thesis
    proof (cases "f name")
      case (Inl err)
      with f False show ?thesis by simp
    next
      case (Inr es)
      have "\<exists>r. entries_loop (treeFSWithPrefix n) t name prefix lvl (int (length es)) 0 es = Some r"
      proof (rule entries_loop_returns [where ?t0.0 = t])
        fix t1 nm pre
        assume "same_options t t1"
        then have "fsys t1 \<noteq> None" "0 < level t1" "lvl + 1 \<le> level t1"
          "nat (level t1 - (lvl + 1)) < n"
          using Suc.prems False by (auto simp: same_options_def)
        then show "\<exists>r. treeFSWithPrefix n t1 nm pre (lvl + 1) = Some r"
          by (rule Suc.IH)
      next
        show "\<And>t nm pre l t' e. treeFSWithPrefix n t nm pre l = Some (t', e) \<Longrightarrow> grows t t'"
          by (rule treeFSWithPrefix_grows)
      next
        show "same_options t t" by (rule same_options_refl)
      qed
      with f False Inr show ?thesis by simp
    qed
  qed
qed

lemma New_state_Level:
  assumes "\<forall>opt \<in> set opts. package_opt opt" and "0 < l"
  shows "level (New_state fs name (opts @ [Level l])) = l \<and>
         fsys (New_state fs name (opts @ [Level l])) = Some fs"
proof -
  have "\<forall>opt \<in> set (opts @ [Level l]). package_opt opt"
    using assms(1) by (auto simp: package_opt_def)
  from New_state_fields [OF this, of fs name] assms(2) show ?thesis
    by (simp add: New_state_def Let_def Level_def)
qed

lemma New_fsA_Level1:
  "New 2 fsA ''.'' [Level 1] =
     Some (\<lparr>fsys = Some fsA,
             tree = [''.'', teeConnector @ '' a1.test'', teeConnector @ '' a2.test'',
                     teeConnector @ '' a3.test'', teeConnector @ '' b'', elbowConnector @ '' c''],
             pathPrefix = ''.'', NDirs = 2, NFiles = 3, hidden = False, dirOnly = False,
             fullPathPrefix = False, level = 1\<rparr>, None)"
  by (simp add: sample_defs fsA_def numeral_2_eq_2)

subsection \<open>Visited directories and listing errors\<close>

lemma visits_same_options:
  "visits t fs name lvl p \<Longrightarrow> same_options t t1 \<Longrightarrow> visits t1 fs name lvl p"
proof (induction rule: visits.induct)
  case (visits_here lvl name)
  then show ?case by (auto simp: same_options_def intro: visits.visits_here)
next
  case (visits_below lvl name es e p)
  from visits_below.prems visits_below.hyps(1) have a: "\<not> (0 < level t1 \<and> lvl = level t1)"
    by (simp add: same_options_def)
  from visits_below.prems visits_below.hyps(4) have b: "allow t1 e"
    by (simp add: allow_same)
  show ?case
    by (rule visits.visits_below [OF a visits_below.hyps(2,3) b visits_below.hyps(5)
          visits_below.IH [OF visits_below.prems]])
qed

lemma entries_loop_success_calls:
  assumes g0: "\<forall>t nm pre l t' e. rec t nm pre l = Some (t', e) \<longrightarrow> grows t t'"
  shows "entries_loop rec t name prefix lvl num i es = Some (t', None) \<Longrightarrow>
         x \<in> set es \<Longrightarrow> allow t x \<Longrightarrow> IsDir x \<Longrightarrow>
         \<exists>t1 pre t2. same_options t t1 \<and> rec t1 (path_Join name (Name x)) pre (lvl + 1) = Some (t2, None)"
proof (induction es arbitrary: t i)
  case Nil
  then show ?case by simp
next
  case (Cons y ys)
  have later: "\<exists>t1 pre t2. same_options t t1 \<and> rec t1 (path_Join name (Name x)) pre (lvl + 1) = Some (t2, None)"
    if s: "same_options t ty" and l: "entries_loop rec ty name prefix lvl num (i + 1) ys = Some (t', None)"
      and m: "x \<in> set ys" for ty
  proof -
    from s Cons.prems(3) have "allow ty x" by (simp add: allow_same)
    from Cons.IH [OF l m this Cons.prems(4)] obtain t1 pre t2
      where "same_options ty t1" "rec t1 (path_Join name (Name x)) pre (lvl + 1) = Some (t2, None)"
      by blast
    with s show ?thesis by (blast intro: same_options_trans)
  qed
  show ?case
  proof (cases "allow t y")
    case False
    with Cons.prems have "entries_loop rec t name prefix lvl num (i + 1) ys = Some (t', None)"
      and "x \<in> set ys" by auto
    with later [OF same_options_refl] show ?thesis by blast
  next
    case True
    show ?thesis
    proof (cases "IsDir y")
      case False
      let ?ty = "append_tfs (t\<lparr>NFiles := NFiles t + 1\<rparr>) prefix
              (if i = num - 1 then elbowConnector else teeConnector) name (Name y)"
      from Cons.prems(1) have l: "entries_loop rec ?ty name prefix lvl num (i + 1) ys = Some (t', None)"
        by (simp only: entries_loop_file [OF True False])
      from Cons.prems(2,4) False have m: "x \<in> set ys" by auto
      from later [OF grows_same_options [OF grows_file [OF True False]] l m] show ?thesis .
    next
      case dir: True
      let ?t1 = "append_tfs (t\<lparr>NDirs := NDirs t + 1\<rparr>) prefix
              (if i = num - 1 then elbowConnector else teeConnector) name (Name y)"
      let ?pre = "if i \<noteq> num - 1 then prefix @ pipePrefix else prefix @ spacePrefix"
      from Cons.prems(1) obtain t2 where c: "rec ?t1 (path_Join name (Name y)) ?pre (lvl + 1) = Some (t2, None)"
        and l: "entries_loop rec t2 name prefix lvl num (i + 1) ys = Some (t', None)"
        unfolding entries_loop_dir [OF True dir] by (auto split: option.splits)
      have s1: "same_options t ?t1" by (rule grows_same_options [OF grows_dir])
      show ?thesis
      proof (cases "x = y")
        case True
        with s1 c show ?thesis by blast
      next
        case False
        with Cons.prems(2) have m: "x \<in> set ys" by simp
        have "same_options t t2"
          using s1 grows_same_options [OF g0 [rule_format, OF c]] by (rule same_options_trans)
        from later [OF this l m] show ?thesis .
      qed
    qed
  qed
qed

lemma entries_loop_error_calls:
  assumes g0: "\<forall>t nm pre l t' e. rec t nm pre l = Some (t', e) \<longrightarrow> grows t t'"
  shows "entries_loop rec t name prefix lvl num i es = Some (t', Some err) \<Longrightarrow>
         \<exists>x t1 pre t2. x \<in> set es \<and> allow t x \<and> IsDir x \<and> same_options t t1 \<and>
            rec t1 (path_Join name (Name x)) pre (lvl + 1) = Some (t2, Some err)"
proof (induction es arbitrary: t i)
  case Nil
  then show ?case by simp
next
  case (Cons y ys)
  have later: "\<exists>x t1 pre t2. x \<in> set (y # ys) \<and> allow t x \<and> IsDir x \<and> same_options t t1 \<and>
            rec t1 (path_Join name (Name x)) pre (lvl + 1) = Some (t2, Some err)"
    if s: "same_options t ty" and l: "entries_loop rec ty name prefix lvl num (i + 1) ys = Some (t', Some err)"
    for ty
  proof -
    from Cons.IH [OF l] obtain x t1 pre t2 where x: "x \<in> set ys" "allow ty x" "IsDir x"
      "same_options ty t1" "rec t1 (path_Join name (Name x)) pre (lvl + 1) = Some (t2, Some err)"
      by blast
    from s x(2) have "allow t x" by (simp add: allow_same)
    moreover from s x(4) have "same_options t t1" by (rule same_options_trans)
    ultimately show ?thesis using x by auto
  qed
  show ?case
  proof (cases "allow t y")
    case False
    with Cons.prems have "entries_loop rec t name prefix lvl num (i + 1) ys = Some (t', Some err)"
      by simp
    from later [OF same_options_refl this] show ?thesis .
  next
    case True
    show ?thesis
    proof (cases "IsDir y")
      case False
      let ?ty = "append_tfs (t\<lparr>NFiles := NFiles t + 1\<rparr>) prefix
              (if i = num - 1 then elbowConnector else teeConnector) name (Name y)"
      from Cons.prems have l: "entries_loop rec ?ty name prefix lvl num (i + 1) ys = Some (t', Some err)"
        by (simp only: entries_loop_file [OF True False])
      from later [OF grows_same_options [OF grows_file [OF True False]] l] show ?thesis .
    next
      case dir: True
      let ?t1 = "append_tfs (t\<lparr>NDirs := NDirs t + 1\<rparr>) prefix
              (if i = num - 1 then elbowConnector else teeConnector) name (Name y)"
      let ?pre = "if i \<noteq> num - 1 then prefix @ pipePrefix else prefix @ spacePrefix"
      have s1: "same_options t ?t1" by (rule grows_same_options [OF grows_dir])
      from Cons.prems obtain t2 e2 where c: "rec ?t1 (path_Join name (Name y)) ?pre (lvl + 1) = Some (t2, e2)"
        and r: "e2 = Some err \<or>
                e2 = None \<and> entries_loop rec t2 name prefix lvl num (i + 1) ys = Some (t', Some err)"
        unfolding entries_loop_dir [OF True dir] by (auto split: option.splits)
      from r show ?thesis
      proof
        assume "e2 = Some err"
        with c s1 True dir show ?thesis by auto
      next
        assume a: "e2 = None \<and> entries_loop rec t2 name prefix lvl num (i + 1) ys = Some (t', Some err)"
        have "same_options t t2"
          using s1 grows_same_options [OF g0 [rule_format, OF c]] by (rule same_options_trans)
        with a later show ?thesis by blast
      qed
    qed
  qed
qed

lemma success_lists_every_visited:
  "treeFSWithPrefix n t name prefix lvl = Some (t', None) \<Longrightarrow> fsys t = Some fs \<Longrightarrow>
   visits t fs name lvl p \<Longrightarrow> fs p \<noteq> Inl err"
proof (induction n arbitrary: t name prefix lvl t')
  case 0
  then show ?case by simp
next
  case (Suc n)
  from Suc.prems(1) show ?case
  proof (cases rule: treeFSWithPrefix_Suc_cases)
    case stop
    with Suc.prems(3) show ?thesis by (auto elim: visits.cases)
  next
    case (fail f err)
    then show ?thesis by simp
  next
    case (list f es)
    with Suc.prems(2) have fs: "fs name = Inr es" by simp
    from Suc.prems(3) show ?thesis
    proof (cases rule: visits.cases)
      case visits_here
      with fs show ?thesis by simp
    next
      case (visits_below es' x)
      with fs have "x \<in> set es" by simp
      have g: "\<forall>t nm pre l t' e. treeFSWithPrefix n t nm pre l = Some (t', e) \<longrightarrow> grows t t'"
        by (simp add: treeFSWithPrefix_grows)
      from entries_loop_success_calls [where rec = "treeFSWithPrefix n", OF g list(4) \<open>x \<in> set es\<close>
          visits_below(4,5)]
      obtain t1 pre t2 where s: "same_options t t1"
        and c: "treeFSWithPrefix n t1 (path_Join name (Name x)) pre (lvl + 1) = Some (t2, None)"
        by blast
      from s Suc.prems(2) have "fsys t1 = Some fs" by (simp add: same_options_def)
      moreover from visits_below(6) s have "visits t1 fs (path_Join name (Name x)) (lvl + 1) p"
        by (rule visits_same_options)
      ultimately show ?thesis using Suc.IH [OF c] by blast
    qed
  qed
qed

lemma error_comes_from_visited:
  "treeFSWithPrefix n t name prefix lvl = Some (t', Some err) \<Longrightarrow> fsys t = Some fs \<Longrightarrow>
   \<exists>p. visits t fs name lvl p \<and> fs p = Inl err"
proof (induction n arbitrary: t name prefix lvl t')
  case 0
  then show ?case by simp
next
  case (Suc n)
  from Suc.prems(1) show ?case
  proof (cases rule: treeFSWithPrefix_Suc_cases)
    case stop
    then show ?thesis by simp
  next
    case (fail f e)
    with Suc.prems(2) have "visits t fs name lvl name \<and> fs name = Inl err"
      by (auto intro: visits_here)
    then show ?thesis by blast
  next
    case (list f es)
    with Suc.prems(2) have fs: "fs name = Inr es" by simp
    have g: "\<forall>t nm pre l t' e. treeFSWithPrefix n t nm pre l = Some (t', e) \<longrightarrow> grows t t'"
      by (simp add: treeFSWithPrefix_grows)
    from entries_loop_error_calls [where rec = "treeFSWithPrefix n", OF g list(4)]
    obtain x t1 pre t2 where x: "x \<in> set es" "allow t x" "IsDir x" and s: "same_options t t1"
      and c: "treeFSWithPrefix n t1 (path_Join name (Name x)) pre (lvl + 1) = Some (t2, Some err)"
      by blast
    from s Suc.prems(2) have "fsys t1 = Some fs" by (simp add: same_options_def)
    from Suc.IH [OF c this] obtain p where p: "visits t1 fs (path_Join name (Name x)) (lvl + 1) p"
      "fs p = Inl err" by blast
    from s have "same_options t1 t" by (simp add: same_options_def)
    with p(1) have "visits t fs (path_Join name (Name x)) (lvl + 1) p"
      by (rule visits_same_options)
    then have "visits t fs name lvl p"
      by (rule visits_below [where fs = fs and name = name, OF list(1) fs x])
    with p(2) show ?thesis by blast
  qed
qed

lemma NewMulti_loop_first_failure:
  assumes "list_all2 (\<lambda>a r. New fuel (Fsys a) (ArgName a) (Opts a) = Some (r, None)) args1 rs"
    and "New fuel (Fsys a) (ArgName a) (Opts a) = Some (t2, Some err)"
  shows "NewMulti_loop fuel t (args1 @ a # args2) =
           Some (t\<lparr>tree := tree t @ concat (map tree rs),
                   NDirs := NDirs t + sum_list (map NDirs rs),
                   NFiles := NFiles t + sum_list (map NFiles rs)\<rparr>, Some err)"
  using assms
proof (induction args1 rs arbitrary: t rule: list_all2_induct)
  case Nil
  then show ?case by simp
next
  case (Cons b r args1 rs)
  then show ?case by (simp add: add.assoc)
qed

lemma New_fsErr:
  "New 2 fsErr ''.'' [] =
     Some (\<lparr>fsys = Some fsErr,
             tree = [''.'', teeConnector @ '' a'', teeConnector @ '' b''],
             pathPrefix = ''.'', NDirs = 1, NFiles = 1, hidden = False, dirOnly = False,
             fullPathPrefix = False, level = 0\<rparr>, Some (ListError ''b''))"
  by (simp add: sample_defs fsErr_def numeral_2_eq_2)

subsection \<open>The lines a walk adds\<close>

lemma append_tfs_tree:
  "tree (append_tfs t p c d n) = tree t @ [p @ c @ '' '' @ displayed_name t d n]"
  by (simp add: append_tfs_def displayed_name_def)

lemma displayed_name_same: "same_options t t1 \<Longrightarrow> displayed_name t1 d n = displayed_name t d n"
  by (simp add: displayed_name_def same_options_def)

lemma grows_added: "grows t t' \<Longrightarrow> tree t' = tree t @ added t t'"
  unfolding grows_def added_def by (metis append_take_drop_id)

lemma added_trans:
  assumes "grows a b" and "grows b c"
  shows "added a c = added a b @ added b c"
proof -
  from assms have "tree c = tree a @ added a b @ added b c"
    using grows_added [of a b] grows_added [of b c] by simp
  then have "drop (length (tree a)) (tree c) = drop (length (tree a)) (tree a @ added a b @ added b c)"
    by simp
  then show ?thesis by (simp add: added_def)
qed

lemma entry_line_same:
  assumes "same_options t t1" and "entry_line t fs name lvl line"
  shows "entry_line t1 fs name lvl line"
proof -
  from assms(2) obtain pre conn dir es e where v: "visits t fs name lvl dir"
    and r: "fs dir = Inr es" "e \<in> set es" "allow t e" "conn = elbowConnector \<or> conn = teeConnector"
      "line = pre @ conn @ '' '' @ displayed_name t dir (Name e)"
    unfolding entry_line_def by blast
  from v assms(1) have "visits t1 fs name lvl dir" by (rule visits_same_options)
  moreover from r(3) assms(1) have "allow t1 e" by (simp add: allow_same)
  moreover from r(5) assms(1) have "line = pre @ conn @ '' '' @ displayed_name t1 dir (Name e)"
    by (simp add: displayed_name_same)
  ultimately show ?thesis using r(1,2,4) unfolding entry_line_def by blast
qed

lemma entry_line_here:
  assumes "\<not> (0 < level t \<and> lvl = level t)" and "fs name = Inr es" and "x \<in> set es" and "allow t x"
    and "conn = elbowConnector \<or> conn = teeConnector"
  shows "entry_line t fs name lvl (pre @ conn @ '' '' @ displayed_name t name (Name x))"
proof -
  from assms(1) have "visits t fs name lvl name" by (rule visits_here)
  with assms(2-5) show ?thesis unfolding entry_line_def by blast
qed

lemma entry_line_below:
  assumes ns: "\<not> (0 < level t \<and> lvl = level t)" and fs: "fs name = Inr es" and x: "x \<in> set es"
    "allow t x" "IsDir x" and l: "entry_line t fs (path_Join name (Name x)) (lvl + 1) line"
  shows "entry_line t fs name lvl line"
proof -
  from l obtain pre conn dir es' e where v: "visits t fs (path_Join name (Name x)) (lvl + 1) dir"
    and r: "fs dir = Inr es'" "e \<in> set es'" "allow t e" "conn = elbowConnector \<or> conn = teeConnector"
      "line = pre @ conn @ '' '' @ displayed_name t dir (Name e)"
    unfolding entry_line_def by blast
  have "visits t fs name lvl dir"
    by (rule visits_below [where fs = fs and name = name, OF ns fs x v])
  with r show ?thesis unfolding entry_line_def by blast
qed

lemma entries_loop_lines:
  assumes IH: "\<forall>t1 nm pre l t' e. treeFSWithPrefix n t1 nm pre l = Some (t', e) \<and> fsys t1 = Some fs \<longrightarrow>
                 (\<forall>line \<in> set (added t1 t'). entry_line t1 fs nm l line)"
    and ns: "\<not> (0 < level t0 \<and> lvl = level t0)" and fs: "fs name = Inr all" and f0: "fsys t0 = Some fs"
  shows "entries_loop (treeFSWithPrefix n) t name prefix lvl num i es = Some (t', err) \<Longrightarrow>
         same_options t0 t \<Longrightarrow> set es \<subseteq> set all \<Longrightarrow>
         \<forall>line \<in> set (added t t'). entry_line t0 fs name lvl line"
proof (induction es arbitrary: t i)
  case Nil
  then show ?case by (simp add: added_def)
next
  case (Cons y ys)
  from Cons.prems(3) have y: "y \<in> set all" and ys: "set ys \<subseteq> set all" by simp_all
  let ?conn = "if i = num - 1 then elbowConnector else teeConnector"
  have conn: "?conn = elbowConnector \<or> ?conn = teeConnector" by simp
  have own: "entry_line t0 fs name lvl (prefix @ ?conn @ '' '' @ displayed_name t name (Name y))"
    if "allow t y"
  proof -
    from that Cons.prems(2) have "allow t0 y" by (simp add: allow_same)
    from entry_line_here [where fs = fs and name = name, OF ns fs y this conn, of prefix]
      Cons.prems(2) show ?thesis
      by (simp add: displayed_name_same)
  qed
  show ?case
  proof (cases "allow t y")
    case False
    with Cons.prems(1) have "entries_loop (treeFSWithPrefix n) t name prefix lvl num (i + 1) ys = Some (t', err)"
      by simp
    from Cons.IH [OF this Cons.prems(2) ys] show ?thesis .
  next
    case True
    show ?thesis
    proof (cases "IsDir y")
      case False
      let ?ty = "append_tfs (t\<lparr>NFiles := NFiles t + 1\<rparr>) prefix ?conn name (Name y)"
      from Cons.prems(1) have l: "entries_loop (treeFSWithPrefix n) ?ty name prefix lvl num (i + 1) ys = Some (t', err)"
        by (simp only: entries_loop_file [OF True False])
      have g1: "grows t ?ty" by (rule grows_file [OF True False])
      have g2: "grows ?ty t'"
        using l by (rule entries_loop_grows [rotated]) (rule treeFSWithPrefix_grows)
      have s: "same_options t0 ?ty"
        using Cons.prems(2) grows_same_options [OF g1] by (rule same_options_trans)
      have a1: "added t ?ty = [prefix @ ?conn @ '' '' @ displayed_name t name (Name y)]"
        by (simp add: added_def append_tfs_tree displayed_name_def)
      from Cons.IH [OF l s ys] own [OF True] show ?thesis
        unfolding added_trans [OF g1 g2] a1 by simp
    next
      case dir: True
      let ?t1 = "append_tfs (t\<lparr>NDirs := NDirs t + 1\<rparr>) prefix ?conn name (Name y)"
      let ?pre = "if i \<noteq> num - 1 then prefix @ pipePrefix else prefix @ spacePrefix"
      from Cons.prems(1) obtain t2 e2
        where c: "treeFSWithPrefix n ?t1 (path_Join name (Name y)) ?pre (lvl + 1) = Some (t2, e2)"
          and r: "(e2 \<noteq> None \<and> t' = t2) \<or>
                  (e2 = None \<and> entries_loop (treeFSWithPrefix n) t2 name prefix lvl num (i + 1) ys = Some (t', err))"
        unfolding entries_loop_dir [OF True dir] by (auto split: option.splits)
      have g1: "grows t ?t1" by (rule grows_dir)
      have g2: "grows ?t1 t2" using c by (rule treeFSWithPrefix_grows)
      have s1: "same_options t0 ?t1"
        using Cons.prems(2) grows_same_options [OF g1] by (rule same_options_trans)
      have s2: "same_options t0 t2"
        using s1 grows_same_options [OF g2] by (rule same_options_trans)
      have a1: "added t ?t1 = [prefix @ ?conn @ '' '' @ displayed_name t name (Name y)]"
        by (simp add: added_def append_tfs_tree displayed_name_def)
      from s1 f0 have f1: "fsys ?t1 = Some fs" by (simp add: same_options_def)
      from True Cons.prems(2) have ay: "allow t0 y" by (simp add: allow_same)
      have sub: "entry_line t0 fs name lvl line" if "line \<in> set (added ?t1 t2)" for line
      proof -
        from IH c f1 that have "entry_line ?t1 fs (path_Join name (Name y)) (lvl + 1) line"
          by blast
        moreover from s1 have "same_options ?t1 t0" by (simp add: same_options_def)
        ultimately have "entry_line t0 fs (path_Join name (Name y)) (lvl + 1) line"
          by (rule entry_line_same [rotated])
        then show ?thesis
          by (rule entry_line_below [where fs = fs and name = name, OF ns fs y ay dir])
      qed
      have upto: "\<forall>line \<in> set (added t t2). entry_line t0 fs name lvl line"
        unfolding added_trans [OF g1 g2] a1 using own [OF True] sub by simp
      from r show ?thesis
      proof
        assume "e2 \<noteq> None \<and> t' = t2"
        with upto show ?thesis by simp
      next
        assume a: "e2 = None \<and> entries_loop (treeFSWithPrefix n) t2 name prefix lvl num (i + 1) ys = Some (t', err)"
        then have l: "entries_loop (treeFSWithPrefix n) t2 name prefix lvl num (i + 1) ys = Some (t', err)"
          by simp
        have g3: "grows t2 t'"
          using l by (rule entries_loop_grows [rotated]) (rule treeFSWithPrefix_grows)
        from Cons.IH [OF l s2 ys] upto show ?thesis
          unfolding added_trans [OF grows_trans [OF g1 g2] g3] by auto
      qed
    qed
  qed
qed

lemma treeFSWithPrefix_lines:
  "treeFSWithPrefix n t name prefix lvl = Some (t', err) \<Longrightarrow> fsys t = Some fs \<Longrightarrow>
   \<forall>line \<in> set (added t t'). entry_line t fs name lvl line"
proof (induction n arbitrary: t name prefix lvl t' err)
  case 0
  then show ?case by simp
next
  case (Suc n)
  from Suc.prems(1) show ?case
  proof (cases rule: treeFSWithPrefix_Suc_cases)
    case stop
    then show ?thesis by (simp add: added_def)
  next
    case (fail f e)
    then show ?thesis by (simp add: added_def)
  next
    case (list f es)
    with Suc.prems(2) have fs: "fs name = Inr es" by simp
    have IH: "\<forall>t1 nm pre l t' e. treeFSWithPrefix n t1 nm pre l = Some (t', e) \<and> fsys t1 = Some fs \<longrightarrow>
                 (\<forall>line \<in> set (added t1 t'). entry_line t1 fs nm l line)"
      using Suc.IH by blast
    from entries_loop_lines [OF IH list(1) fs Suc.prems(2) list(4) same_options_refl subset_refl]
    show ?thesis .
  qed
qed

lemma substituted_name_not_empty: "strings_Contains name ''../'' \<or> name = ''.'' \<Longrightarrow> name \<noteq> []"
  by (auto simp: strings_HasPrefix_def)

lemma New_fsA_up_full:
  "New 3 fsA ''../x'' [FullPathPrefix] =
     Some (\<lparr>fsys = Some fsA,
             tree = [''../x'', teeConnector @ '' ../x/a1.test'', teeConnector @ '' ../x/a2.test'',
                     teeConnector @ '' ../x/a3.test'', teeConnector @ '' ../x/b'',
                     pipePrefix @ teeConnector @ '' ../x/b/b1.test'',
                     pipePrefix @ teeConnector @ '' ../x/b/b2.test'',
                     pipePrefix @ teeConnector @ '' ../x/b/b3.test'',
                     pipePrefix @ elbowConnector @ '' ../x/b/d'',
                     pipePrefix @ spacePrefix @ elbowConnector @ '' ../x/b/d/d1.test'',
                     elbowConnector @ '' ../x/c'',
                     spacePrefix @ teeConnector @ '' ../x/c/c1.test'',
                     spacePrefix @ elbowConnector @ '' ../x/c/c2.test''],
             pathPrefix = ''../x'', NDirs = 3, NFiles = 9, hidden = False, dirOnly = False,
             fullPathPrefix = True, level = 0\<rparr>, None)"
  by (simp add: sample_defs fsA_def numeral_3_eq_3)

subsection \<open>The walk against the traversal of the specification\<close>

lemma allow_iff_not_excluded: "allow t e \<longleftrightarrow> \<not> excluded t e"
  by (auto simp: allow_def excluded_def Let_def)

lemma excluded_same: "same_options t t1 \<Longrightarrow> excluded t1 e = excluded t e"
  by (simp add: excluded_def same_options_def)

lemma shows_entry_same: "same_options t t1 \<Longrightarrow> shows_entry t1 line it = shows_entry t line it"
  by (simp add: shows_entry_def displayed_name_same)

lemma count_dirs_simps:
  "count_dirs [] = 0"
  "count_dirs ((l, d, e) # its) = (if IsDir e then 1 else 0) + count_dirs its"
  "count_dirs (xs @ ys) = count_dirs xs + count_dirs ys"
  by (simp_all add: count_dirs_def item_entry_def)

lemma count_files_simps:
  "count_files [] = 0"
  "count_files ((l, d, e) # its) = (if IsDir e then 0 else 1) + count_files its"
  "count_files (xs @ ys) = count_files xs + count_files ys"
  by (simp_all add: count_files_def item_entry_def)

lemma shows_entry_line:
  "conn = elbowConnector \<or> conn = teeConnector \<Longrightarrow>
   shows_entry t (pre @ conn @ '' '' @ displayed_name t d (Name e)) (l, d, e)"
  unfolding shows_entry_def item_dir_def item_entry_def by auto

lemma walk_matches_Some:
  "walk_matches t r (Some (its, err)) \<longleftrightarrow>
     (\<exists>t'. r = Some (t', err) \<and> grows t t' \<and> list_all2 (shows_entry t) (added t t') its \<and>
           NDirs t' = NDirs t + count_dirs its \<and> NFiles t' = NFiles t + count_files its)"
  by (simp add: walk_matches_def)

lemma walk_matches_None: "walk_matches t r None \<longleftrightarrow> r = None"
  by (simp add: walk_matches_def)

lemma walk_matches_refl: "walk_matches t (Some (t, None)) (Some ([], None))"
  by (simp add: walk_matches_Some grows_refl added_def count_dirs_simps count_files_simps)

lemma walk_matches_seq:
  assumes a: "walk_matches t (Some (t1, None)) (Some (its1, None))"
    and b: "walk_matches t1 r ref"
  shows "walk_matches t r (case ref of None \<Rightarrow> None | Some (its, e) \<Rightarrow> Some (its1 @ its, e))"
proof (cases ref)
  case None
  with b show ?thesis by (simp add: walk_matches_None)
next
  case (Some p)
  obtain its e where p: "p = (its, e)" by (cases p)
  from a have g1: "grows t t1" and l1: "list_all2 (shows_entry t) (added t t1) its1"
    and c1: "NDirs t1 = NDirs t + count_dirs its1" "NFiles t1 = NFiles t + count_files its1"
    by (simp_all add: walk_matches_Some)
  from b Some p obtain t' where r: "r = Some (t', e)" and g2: "grows t1 t'"
    and l2: "list_all2 (shows_entry t1) (added t1 t') its"
    and c2: "NDirs t' = NDirs t1 + count_dirs its" "NFiles t' = NFiles t1 + count_files its"
    by (auto simp: walk_matches_Some)
  from g1 have "same_options t t1" by (rule grows_same_options)
  then have "shows_entry t1 = shows_entry t"
    by (simp add: fun_eq_iff shows_entry_same)
  with l2 have l2': "list_all2 (shows_entry t) (added t1 t') its" by simp
  have "list_all2 (shows_entry t) (added t t') (its1 @ its)"
    unfolding added_trans [OF g1 g2] using l1 l2' by (rule list_all2_appendI)
  with r c1 c2 grows_trans [OF g1 g2] Some p show ?thesis
    by (simp add: walk_matches_Some count_dirs_simps count_files_simps)
qed

lemma append_tfs_counts:
  "NDirs (append_tfs t p c d n) = NDirs t" "NFiles (append_tfs t p c d n) = NFiles t"
  by (simp_all add: append_tfs_def)

lemma walk_matches_dir_line:
  assumes "IsDir e" and "conn = elbowConnector \<or> conn = teeConnector"
  shows "walk_matches t (Some (append_tfs (t\<lparr>NDirs := NDirs t + 1\<rparr>) pre conn d (Name e), None))
           (Some ([(l, d, e)], None))"
proof -
  have "added t (append_tfs (t\<lparr>NDirs := NDirs t + 1\<rparr>) pre conn d (Name e)) =
      [pre @ conn @ '' '' @ displayed_name t d (Name e)]"
    by (simp add: added_def append_tfs_tree displayed_name_def)
  moreover have "shows_entry t (pre @ conn @ '' '' @ displayed_name t d (Name e)) (l, d, e)"
    using assms(2) by (rule shows_entry_line)
  ultimately show ?thesis using assms(1)
    by (simp add: walk_matches_Some grows_dir count_dirs_simps count_files_simps append_tfs_counts)
qed

lemma walk_matches_file_line:
  assumes "allow t e" and "\<not> IsDir e" and "conn = elbowConnector \<or> conn = teeConnector"
  shows "walk_matches t (Some (append_tfs (t\<lparr>NFiles := NFiles t + 1\<rparr>) pre conn d (Name e), None))
           (Some ([(l, d, e)], None))"
proof -
  have "added t (append_tfs (t\<lparr>NFiles := NFiles t + 1\<rparr>) pre conn d (Name e)) =
      [pre @ conn @ '' '' @ displayed_name t d (Name e)]"
    by (simp add: added_def append_tfs_tree displayed_name_def)
  moreover have "shows_entry t (pre @ conn @ '' '' @ displayed_name t d (Name e)) (l, d, e)"
    using assms(3) by (rule shows_entry_line)
  ultimately show ?thesis using assms(1,2)
    by (simp add: walk_matches_Some grows_file count_dirs_simps count_files_simps append_tfs_counts)
qed

lemma displayed_same_options:
  "same_options t0 t \<Longrightarrow> displayed n t fs = displayed n t0 fs"
proof (induction n)
  case 0
  show ?case by (simp add: fun_eq_iff)
next
  case (Suc n)
  from Suc.prems have e: "excluded t = excluded t0"
    by (simp add: fun_eq_iff excluded_same)
  from Suc.prems have l: "level t = level t0" by (simp add: same_options_def)
  show ?case
  proof (intro ext)
    fix name lvl
    show "displayed (Suc n) t fs name lvl = displayed (Suc n) t0 fs name lvl"
      by (simp add: Suc.IH [OF Suc.prems] e l cong: sum.case_cong)
  qed
qed

lemma entries_loop_matches:
  assumes IH: "\<forall>t1 nm pre l. same_options t0 t1 \<longrightarrow>
                 walk_matches t1 (treeFSWithPrefix n t1 nm pre l) (displayed n t0 fs nm l)"
  shows "same_options t0 t \<Longrightarrow>
         walk_matches t (entries_loop (treeFSWithPrefix n) t name prefix lvl num i es)
           (displayed_entries (displayed n t0 fs) name lvl (filter (\<lambda>e. \<not> excluded t0 e) es))"
proof (induction es arbitrary: t i)
  case Nil
  show ?case by (simp add: walk_matches_refl)
next
  case (Cons y ys)
  let ?conn = "if i = num - 1 then elbowConnector else teeConnector"
  let ?ref = "\<lambda>es. displayed_entries (displayed n t0 fs) name lvl (filter (\<lambda>e. \<not> excluded t0 e) es)"
  have conn: "?conn = elbowConnector \<or> ?conn = teeConnector" by simp
  from Cons.prems have al: "allow t y \<longleftrightarrow> \<not> excluded t0 y"
    by (simp add: allow_iff_not_excluded excluded_same)
  show ?case
  proof (cases "allow t y")
    case False
    with al Cons.IH [OF Cons.prems] show ?thesis by simp
  next
    case True
    with al have ne: "\<not> excluded t0 y" by simp
    show ?thesis
    proof (cases "IsDir y")
      case False
      let ?ty = "append_tfs (t\<lparr>NFiles := NFiles t + 1\<rparr>) prefix ?conn name (Name y)"
      have s: "same_options t0 ?ty"
        using Cons.prems grows_same_options [OF grows_file [OF True False]]
        by (rule same_options_trans)
      have d: "?ref (y # ys) =
          (case ?ref ys of None \<Rightarrow> None | Some (its, e) \<Rightarrow> Some ([(lvl, name, y)] @ its, e))"
        using ne False by (simp split: option.splits)
      show ?thesis
        unfolding entries_loop_file [OF True False] d
        by (rule walk_matches_seq [OF walk_matches_file_line [OF True False conn] Cons.IH [OF s]])
    next
      case dir: True
      let ?t1 = "append_tfs (t\<lparr>NDirs := NDirs t + 1\<rparr>) prefix ?conn name (Name y)"
      let ?pre = "if i \<noteq> num - 1 then prefix @ pipePrefix else prefix @ spacePrefix"
      let ?sub = "displayed n t0 fs (path_Join name (Name y)) (lvl + 1)"
      let ?call = "treeFSWithPrefix n ?t1 (path_Join name (Name y)) ?pre (lvl + 1)"
      have s1: "same_options t0 ?t1"
        using Cons.prems grows_same_options [OF grows_dir] by (rule same_options_trans)
      with IH have m: "walk_matches ?t1 ?call ?sub" by blast
      have line: "walk_matches t (Some (?t1, None)) (Some ([(lvl, name, y)], None))"
        using dir conn by (rule walk_matches_dir_line)
      show ?thesis
      proof (cases ?sub)
        case None
        with m have c: "?call = None" by (simp add: walk_matches_None)
        from None ne dir have d: "?ref (y # ys) = None" by simp
        show ?thesis
          unfolding entries_loop_dir [OF True dir] c d by (simp add: walk_matches_None)
      next
        case (Some p)
        obtain below r where p: "p = (below, r)" by (cases p)
        from m Some p obtain t2 where c: "?call = Some (t2, r)" and g2: "grows ?t1 t2"
          by (auto simp: walk_matches_Some)
        show ?thesis
        proof (cases r)
          case (Some err)
          from \<open>?sub = Some p\<close> p Some ne dir
          have d: "?ref (y # ys) = Some ([(lvl, name, y)] @ below, Some err)" by simp
          have l: "entries_loop (treeFSWithPrefix n) t name prefix lvl num i (y # ys) = ?call"
            unfolding entries_loop_dir [OF True dir] c using Some by simp
          from walk_matches_seq [OF line m] \<open>?sub = Some p\<close> p Some
          show ?thesis unfolding l d by simp
        next
          case None
          from m \<open>?sub = Some p\<close> p None c
          have m12: "walk_matches ?t1 (Some (t2, None)) (Some (below, None))" by simp
          have s2: "same_options t0 t2"
            using s1 grows_same_options [OF g2] by (rule same_options_trans)
          from \<open>?sub = Some p\<close> p None ne dir
          have d: "?ref (y # ys) =
              (case (case ?ref ys of None \<Rightarrow> None | Some (its, e) \<Rightarrow> Some (below @ its, e)) of
                 None \<Rightarrow> None | Some (its, e) \<Rightarrow> Some ([(lvl, name, y)] @ its, e))"
            by (simp split: option.splits)
          have l: "entries_loop (treeFSWithPrefix n) t name prefix lvl num i (y # ys) =
              entries_loop (treeFSWithPrefix n) t2 name prefix lvl num (i + 1) ys"
            unfolding entries_loop_dir [OF True dir] c using None by simp
          show ?thesis
            unfolding l d
            by (rule walk_matches_seq [OF line walk_matches_seq [OF m12 Cons.IH [OF s2]]])
        qed
      qed
    qed
  qed
qed

lemma treeFSWithPrefix_matches:
  "fsys t = Some fs \<Longrightarrow>
   walk_matches t (treeFSWithPrefix n t name prefix lvl) (displayed n t fs name lvl)"
proof (induction n arbitrary: t name prefix lvl)
  case 0
  show ?case by (simp add: walk_matches_None)
next
  case (Suc n)
  show ?case
  proof (cases "0 < level t \<and> lvl = level t")
    case True
    then show ?thesis by (simp add: walk_matches_refl)
  next
    case False
    show ?thesis
    proof (cases "fs name")
      case (Inl err)
      with False Suc.prems show ?thesis
        by (simp add: walk_matches_Some grows_refl added_def count_dirs_simps count_files_simps)
    next
      case (Inr es)
      have IH: "\<forall>t1 nm pre l. same_options t t1 \<longrightarrow>
                 walk_matches t1 (treeFSWithPrefix n t1 nm pre l) (displayed n t fs nm l)"
      proof (intro allI impI)
        fix t1 nm pre l
        assume s: "same_options t t1"
        with Suc.prems have "fsys t1 = Some fs" by (simp add: same_options_def)
        from Suc.IH [OF this, of nm pre l] displayed_same_options [OF s, of n fs]
        show "walk_matches t1 (treeFSWithPrefix n t1 nm pre l) (displayed n t fs nm l)" by simp
      qed
      have w: "treeFSWithPrefix (Suc n) t name prefix lvl =
          entries_loop (treeFSWithPrefix n) t name prefix lvl (int (length es)) 0 es"
        using False Inr Suc.prems by auto
      have d: "displayed (Suc n) t fs name lvl =
          displayed_entries (displayed n t fs) name lvl (filter (\<lambda>e. \<not> excluded t e) es)"
        using False Inr by auto
      show ?thesis
        unfolding w d by (rule entries_loop_matches [OF IH same_options_refl])
    qed
  qed
qed

subsection \<open>Properties of the traversal of the specification\<close>

lemma displayed_entries_Cons_cases:
  assumes "displayed_entries sub name lvl (e # es) = Some (its, r)"
  obtains (afile) rest where "\<not> IsDir e" "displayed_entries sub name lvl es = Some (rest, r)"
      "its = (lvl, name, e) # rest"
  | (afail) below err where "IsDir e" "sub (path_Join name (Name e)) (lvl + 1) = Some (below, Some err)"
      "its = (lvl, name, e) # below" "r = Some err"
  | (adir) below rest where "IsDir e" "sub (path_Join name (Name e)) (lvl + 1) = Some (below, None)"
      "displayed_entries sub name lvl es = Some (rest, r)" "its = (lvl, name, e) # below @ rest"
  using assms by (auto split: if_splits option.splits)

lemma displayed_Suc_cases:
  assumes "displayed (Suc n) t fs name lvl = Some (its, r)"
  obtains (stop) "0 < level t" "lvl = level t" "its = []" "r = None"
  | (fail) err where "\<not> (0 < level t \<and> lvl = level t)" "fs name = Inl err" "its = []" "r = Some err"
  | (list) es where "\<not> (0 < level t \<and> lvl = level t)" "fs name = Inr es"
      "displayed_entries (displayed n t fs) name lvl (filter (\<lambda>e. \<not> excluded t e) es) = Some (its, r)"
  using assms by (auto split: if_splits sum.splits)

text \<open>Every displayed entry passed the filter, in a listing at its depth or deeper.\<close>

lemma displayed_entries_items:
  assumes sub: "\<forall>nm its r. sub nm (lvl + 1) = Some (its, r) \<longrightarrow> (\<forall>it \<in> set its. P it)"
    and own: "\<forall>e \<in> set es. P (lvl, name, e)"
  shows "displayed_entries sub name lvl es = Some (its, r) \<Longrightarrow> \<forall>it \<in> set its. P it"
  using own
proof (induction es arbitrary: its r)
  case Nil
  then show ?case by simp
next
  case (Cons e es)
  from Cons.prems(1) show ?case
  proof (cases rule: displayed_entries_Cons_cases)
    case (afile rest)
    with Cons.IH [OF afile(2)] Cons.prems(2) show ?thesis by simp
  next
    case (afail below err)
    with sub Cons.prems(2) show ?thesis by auto
  next
    case (adir below rest)
    from sub adir(2) have "\<forall>it \<in> set below. P it" by blast
    with adir Cons.IH [OF adir(3)] Cons.prems(2) show ?thesis by auto
  qed
qed

lemma displayed_not_excluded:
  "displayed n t fs name lvl = Some (its, r) \<Longrightarrow> \<forall>it \<in> set its. \<not> excluded t (item_entry it)"
proof (induction n arbitrary: name lvl its r)
  case 0
  then show ?case by simp
next
  case (Suc n)
  from Suc.prems show ?case
  proof (cases rule: displayed_Suc_cases)
    case (list es)
    from list(3) show ?thesis
    proof (rule displayed_entries_items [rotated 2])
      show "\<forall>nm its r. displayed n t fs nm (lvl + 1) = Some (its, r) \<longrightarrow>
              (\<forall>it \<in> set its. \<not> excluded t (item_entry it))"
        using Suc.IH by blast
      show "\<forall>e \<in> set (filter (\<lambda>e. \<not> excluded t e) es). \<not> excluded t (item_entry (lvl, name, e))"
        by (simp add: item_entry_def)
    qed
  qed simp_all
qed

lemma displayed_depth_ge:
  "displayed n t fs name lvl = Some (its, r) \<Longrightarrow> \<forall>it \<in> set its. lvl \<le> item_depth it"
proof (induction n arbitrary: name lvl its r)
  case 0
  then show ?case by simp
next
  case (Suc n)
  from Suc.prems show ?case
  proof (cases rule: displayed_Suc_cases)
    case (list es)
    from list(3) show ?thesis
    proof (rule displayed_entries_items [rotated 2])
      show "\<forall>nm its r. displayed n t fs nm (lvl + 1) = Some (its, r) \<longrightarrow>
              (\<forall>it \<in> set its. lvl \<le> item_depth it)"
        using Suc.IH by fastforce
      show "\<forall>e \<in> set (filter (\<lambda>e. \<not> excluded t e) es). lvl \<le> item_depth (lvl, name, e)"
        by (simp add: item_depth_def)
    qed
  qed simp_all
qed

lemma displayed_depth_less:
  "displayed n t fs name lvl = Some (its, r) \<Longrightarrow> 0 < level t \<Longrightarrow> lvl \<le> level t \<Longrightarrow>
   \<forall>it \<in> set its. item_depth it < level t"
proof (induction n arbitrary: name lvl its r)
  case 0
  then show ?case by simp
next
  case (Suc n)
  from Suc.prems(1) show ?case
  proof (cases rule: displayed_Suc_cases)
    case (list es)
    with Suc.prems have less: "lvl < level t" by auto
    from list(3) show ?thesis
    proof (rule displayed_entries_items [rotated 2])
      show "\<forall>nm its r. displayed n t fs nm (lvl + 1) = Some (its, r) \<longrightarrow>
              (\<forall>it \<in> set its. item_depth it < level t)"
        using Suc.IH Suc.prems(2) less by fastforce
      show "\<forall>e \<in> set (filter (\<lambda>e. \<not> excluded t e) es). item_depth (lvl, name, e) < level t"
        using less by (simp add: item_depth_def)
    qed
  qed simp_all
qed

lemma failed_at_Nil: "failed_at fs name [] err \<longleftrightarrow> fs name = Inl err"
  by (simp add: failed_at_def)

lemma failed_at_nonempty:
  "its \<noteq> [] \<Longrightarrow> failed_at fs name (xs @ its) err = failed_at fs name' its err"
  by (simp add: failed_at_def)

lemma failed_at_single_dir:
  "IsDir e \<Longrightarrow> fs (path_Join d (Name e)) = Inl err \<Longrightarrow> failed_at fs name [(l, d, e)] err"
  by (simp add: failed_at_def item_entry_def item_dir_def)

lemma displayed_entries_error:
  assumes sub: "\<forall>nm its err. sub nm (lvl + 1) = Some (its, Some err) \<longrightarrow> failed_at fs nm its err"
  shows "displayed_entries sub name lvl es = Some (its, Some err) \<Longrightarrow>
         its \<noteq> [] \<and> failed_at fs name its err"
proof (induction es arbitrary: its)
  case Nil
  then show ?case by simp
next
  case (Cons e es)
  from Cons.prems show ?case
  proof (cases rule: displayed_entries_Cons_cases)
    case (afile rest)
    from Cons.IH [OF afile(2)] have "rest \<noteq> []" "failed_at fs name rest err" by simp_all
    with afile(3) failed_at_nonempty [of rest fs name "[(lvl, name, e)]" err name]
    show ?thesis by simp
  next
    case (afail below err')
    with sub have f: "failed_at fs (path_Join name (Name e)) below err" by auto
    show ?thesis
    proof (cases "below = []")
      case True
      with f afail(1,3) show ?thesis
        by (simp add: failed_at_Nil failed_at_single_dir)
    next
      case False
      with f afail(3) failed_at_nonempty [of below fs name "[(lvl, name, e)]" err]
      show ?thesis by simp
    qed
  next
    case (adir below rest)
    from Cons.IH [OF adir(3)] have "rest \<noteq> []" "failed_at fs name rest err" by simp_all
    with adir(4) failed_at_nonempty [of rest fs name "(lvl, name, e) # below" err name]
    show ?thesis by simp
  qed
qed

lemma displayed_error:
  "displayed n t fs name lvl = Some (its, Some err) \<Longrightarrow> failed_at fs name its err"
proof (induction n arbitrary: name lvl its err)
  case 0
  then show ?case by simp
next
  case (Suc n)
  from Suc.prems show ?case
  proof (cases rule: displayed_Suc_cases)
    case stop
    then show ?thesis by simp
  next
    case (fail e)
    then show ?thesis by (simp add: failed_at_Nil)
  next
    case (list es)
    have "\<forall>nm its err. displayed n t fs nm (lvl + 1) = Some (its, Some err) \<longrightarrow> failed_at fs nm its err"
      using Suc.IH by blast
    from displayed_entries_error [where sub = "displayed n t fs", OF this list(3)]
    show ?thesis by simp
  qed
qed

text \<open>At the depth before a positive limit the traversal displays the listing and nothing below it.\<close>

lemma displayed_entries_leaves:
  assumes "\<forall>nm. sub nm (lvl + 1) = Some ([], None)"
  shows "displayed_entries sub name lvl es = Some (map (\<lambda>e. (lvl, name, e)) es, None)"
  using assms by (induction es) simp_all

lemma displayed_boundary:
  assumes "0 < level t" and "lvl + 1 = level t" and "fs name = Inr es"
  shows "displayed (Suc (Suc n)) t fs name lvl =
           Some (map (\<lambda>e. (lvl, name, e)) (filter (\<lambda>e. \<not> excluded t e) es), None)"
proof -
  have "\<forall>nm. displayed (Suc n) t fs nm (lvl + 1) = Some ([], None)"
    using assms(1,2) by simp
  from displayed_entries_leaves [where sub = "displayed (Suc n) t fs", OF this] assms
  show ?thesis by simp
qed

text \<open>
  With a positive limit \<open>L\<close> the traversal displays the entries of depth below \<open>L\<close> of
  the traversal without a limit, when that one ends without an error.
\<close>

lemma displayed_entries_cut:
  assumes sub: "\<forall>nm its. sub nm (lvl + 1) = Some (its, None) \<longrightarrow>
                  subL nm (lvl + 1) = Some (filter (\<lambda>it. item_depth it < L) its, None)"
    and less: "lvl < L"
  shows "displayed_entries sub name lvl es = Some (its, None) \<Longrightarrow>
         displayed_entries subL name lvl es = Some (filter (\<lambda>it. item_depth it < L) its, None)"
proof (induction es arbitrary: its)
  case Nil
  then show ?case by simp
next
  case (Cons e es)
  from Cons.prems show ?case
  proof (cases rule: displayed_entries_Cons_cases)
    case (afile rest)
    with Cons.IH [OF afile(2)] less show ?thesis by (simp add: item_depth_def)
  next
    case (afail below err)
    then show ?thesis by simp
  next
    case (adir below rest)
    from sub adir(2) have "subL (path_Join name (Name e)) (lvl + 1) =
        Some (filter (\<lambda>it. item_depth it < L) below, None)" by blast
    with adir Cons.IH [OF adir(3)] less show ?thesis by (simp add: item_depth_def)
  qed
qed

lemma displayed_cut:
  assumes "level t \<le> 0" and "0 < L"
  shows "displayed n t fs name lvl = Some (its, None) \<Longrightarrow> lvl \<le> L \<Longrightarrow>
         displayed n (t\<lparr>level := L\<rparr>) fs name lvl = Some (filter (\<lambda>it. item_depth it < L) its, None)"
proof (induction n arbitrary: name lvl its)
  case 0
  then show ?case by simp
next
  case (Suc n)
  show ?case
  proof (cases "lvl = L")
    case True
    from displayed_depth_ge [OF Suc.prems(1)] True
    have "filter (\<lambda>it. item_depth it < L) its = []" by (auto simp: filter_empty_conv)
    with True assms(2) show ?thesis by simp
  next
    case False
    with Suc.prems(2) have less: "lvl < L" by simp
    have ex: "excluded (t\<lparr>level := L\<rparr>) = excluded t"
      by (simp add: fun_eq_iff excluded_def)
    from Suc.prems(1) show ?thesis
    proof (cases rule: displayed_Suc_cases)
      case stop
      with assms(1) show ?thesis by simp
    next
      case (fail err)
      then show ?thesis by simp
    next
      case (list es)
      have "\<forall>nm its. displayed n t fs nm (lvl + 1) = Some (its, None) \<longrightarrow>
          displayed n (t\<lparr>level := L\<rparr>) fs nm (lvl + 1) = Some (filter (\<lambda>it. item_depth it < L) its, None)"
        using Suc.IH less by simp
      from displayed_entries_cut [where sub = "displayed n t fs"
          and subL = "displayed n (t\<lparr>level := L\<rparr>) fs", OF this less list(3)] list(2) False assms(2)
      show ?thesis by (simp add: ex)
    qed
  qed
qed

text \<open>
  When the traversal ends without an error, the entries of every listed directory that
  pass the filter are displayed: those of the root of the traversal, and those of every
  displayed directory above the depth of a positive limit.
\<close>

lemma displayed_entries_own:
  "displayed_entries sub name lvl es = Some (its, r) \<Longrightarrow> r = None \<Longrightarrow>
   \<forall>e \<in> set es. (lvl, name, e) \<in> set its"
proof (induction es arbitrary: its)
  case Nil
  then show ?case by simp
next
  case (Cons e es)
  from Cons.prems(1) show ?case
  proof (cases rule: displayed_entries_Cons_cases)
    case (afile rest)
    with Cons.IH [OF afile(2)] Cons.prems(2) show ?thesis by simp
  next
    case (afail below err)
    with Cons.prems(2) show ?thesis by simp
  next
    case (adir below rest)
    with Cons.IH [OF adir(3)] Cons.prems(2) show ?thesis by simp
  qed
qed

lemma displayed_root_entries:
  assumes "displayed n t fs name lvl = Some (its, None)" and "\<not> (0 < level t \<and> lvl = level t)"
  shows "\<exists>es. fs name = Inr es \<and> (\<forall>e \<in> set es. \<not> excluded t e \<longrightarrow> (lvl, name, e) \<in> set its)"
proof (cases n)
  case 0
  with assms show ?thesis by simp
next
  case (Suc m)
  from assms(1) [unfolded Suc] show ?thesis
  proof (cases rule: displayed_Suc_cases)
    case stop
    with assms(2) show ?thesis by simp
  next
    case (fail err)
    then show ?thesis by simp
  next
    case (list es)
    from displayed_entries_own [OF list(3)] list(2) show ?thesis by simp
  qed
qed

lemma displayed_entries_closed:
  assumes sub: "\<forall>nm its. sub nm (lvl + 1) = Some (its, None) \<longrightarrow> Q nm (lvl + 1) its \<and> (\<forall>it \<in> set its. P its it)"
    and mono: "\<And>xs ys zs it. P ys it \<Longrightarrow> P (xs @ ys @ zs) it"
    and own: "\<And>e below rest. IsDir e \<Longrightarrow> Q (path_Join name (Name e)) (lvl + 1) below \<Longrightarrow>
                P ((lvl, name, e) # below @ rest) (lvl, name, e)"
    and leaf: "\<And>e its. \<not> IsDir e \<Longrightarrow> P its (lvl, name, e)"
  shows "displayed_entries sub name lvl es = Some (its, None) \<Longrightarrow> \<forall>it \<in> set its. P its it"
proof (induction es arbitrary: its)
  case Nil
  then show ?case by simp
next
  case (Cons e es)
  from Cons.prems show ?case
  proof (cases rule: displayed_entries_Cons_cases)
    case (afile rest)
    from Cons.IH [OF afile(2)] have "\<forall>it \<in> set rest. P ([(lvl, name, e)] @ rest @ []) it"
      by (blast intro: mono)
    with afile leaf show ?thesis by simp
  next
    case (afail below err)
    then show ?thesis by simp
  next
    case (adir below rest)
    from sub adir(2) have q: "Q (path_Join name (Name e)) (lvl + 1) below"
      and b: "\<forall>it \<in> set below. P below it" by blast+
    from b have b': "\<forall>it \<in> set below. P ([(lvl, name, e)] @ below @ rest) it"
      by (blast intro: mono)
    from Cons.IH [OF adir(3)] have "\<forall>it \<in> set rest. P (((lvl, name, e) # below) @ rest @ []) it"
      by (blast intro: mono)
    with b' own [OF adir(1) q, of rest] adir(4) show ?thesis by auto
  qed
qed

lemma displayed_closed:
  "displayed n t fs name lvl = Some (its, None) \<Longrightarrow>
   \<forall>it \<in> set its.
     IsDir (item_entry it) \<and> \<not> (0 < level t \<and> item_depth it + 1 = level t) \<longrightarrow>
     (\<exists>es. fs (path_Join (item_dir it) (Name (item_entry it))) = Inr es \<and>
        (\<forall>e \<in> set es. \<not> excluded t e \<longrightarrow>
           (item_depth it + 1, path_Join (item_dir it) (Name (item_entry it)), e) \<in> set its))"
proof (induction n arbitrary: name lvl its)
  case 0
  then show ?case by simp
next
  case (Suc n)
  let ?P = "\<lambda>its it. IsDir (item_entry it) \<and> \<not> (0 < level t \<and> item_depth it + 1 = level t) \<longrightarrow>
     (\<exists>es. fs (path_Join (item_dir it) (Name (item_entry it))) = Inr es \<and>
        (\<forall>e \<in> set es. \<not> excluded t e \<longrightarrow>
           (item_depth it + 1, path_Join (item_dir it) (Name (item_entry it)), e) \<in> set its))"
  let ?Q = "\<lambda>nm l its. \<not> (0 < level t \<and> l = level t) \<longrightarrow>
     (\<exists>es. fs nm = Inr es \<and> (\<forall>e \<in> set es. \<not> excluded t e \<longrightarrow> (l, nm, e) \<in> set its))"
  from Suc.prems show ?case
  proof (cases rule: displayed_Suc_cases)
    case (list es)
    have sub: "\<forall>nm its. displayed n t fs nm (lvl + 1) = Some (its, None) \<longrightarrow>
        ?Q nm (lvl + 1) its \<and> (\<forall>it \<in> set its. ?P its it)"
      using Suc.IH displayed_root_entries [of n t fs _ "lvl + 1"] by blast
    show ?thesis
    proof (rule displayed_entries_closed [where sub = "displayed n t fs" and P = ?P and Q = ?Q,
          OF sub _ _ _ list(3)])
      show "\<And>xs ys zs it. ?P ys it \<Longrightarrow> ?P (xs @ ys @ zs) it" by auto
      show "\<And>e below rest. IsDir e \<Longrightarrow> ?Q (path_Join name (Name e)) (lvl + 1) below \<Longrightarrow>
              ?P ((lvl, name, e) # below @ rest) (lvl, name, e)"
        by (auto simp: item_depth_def item_dir_def item_entry_def)
      show "\<And>e its. \<not> IsDir e \<Longrightarrow> ?P its (lvl, name, e)"
        by (simp add: item_entry_def)
    qed
  qed simp_all
qed

text \<open>On a file system that is at most \<open>d\<close> deep the traversal and the walk return within \<open>d\<close> nested calls.\<close>

lemma displayed_entries_returns:
  "\<forall>e \<in> set es. IsDir e \<longrightarrow> sub (path_Join name (Name e)) (lvl + 1) \<noteq> None \<Longrightarrow>
   displayed_entries sub name lvl es \<noteq> None"
  by (induction es) (auto split: option.splits)

lemma deep_displayed: "deep d t fs name lvl \<Longrightarrow> displayed d t fs name lvl \<noteq> None"
proof (induction d arbitrary: name lvl)
  case 0
  then show ?case by simp
next
  case (Suc d)
  show ?case
  proof (cases "0 < level t \<and> lvl = level t")
    case True
    then show ?thesis by simp
  next
    case False
    show ?thesis
    proof (cases "fs name")
      case (Inl err)
      with False show ?thesis by simp
    next
      case (Inr es)
      have "\<forall>e \<in> set (filter (\<lambda>e. \<not> excluded t e) es). IsDir e \<longrightarrow>
              displayed d t fs (path_Join name (Name e)) (lvl + 1) \<noteq> None"
      proof (intro ballI impI)
        fix e assume e: "e \<in> set (filter (\<lambda>e. \<not> excluded t e) es)" and d: "IsDir e"
        from Suc.prems False Inr e d have "deep d t fs (path_Join name (Name e)) (lvl + 1)"
          by (auto simp: list_all_iff split: if_splits)
        then show "displayed d t fs (path_Join name (Name e)) (lvl + 1) \<noteq> None" by (rule Suc.IH)
      qed
      from displayed_entries_returns [where sub = "displayed d t fs", OF this] False Inr
      show ?thesis by simp
    qed
  qed
qed

lemma deep_walk_returns:
  assumes "deep d t fs name lvl" and "fsys t = Some fs"
  shows "\<exists>t' err. treeFSWithPrefix d t name prefix lvl = Some (t', err)"
proof -
  from deep_displayed [OF assms(1)] obtain its err where "displayed d t fs name lvl = Some (its, err)"
    by (cases "displayed d t fs name lvl") auto
  with treeFSWithPrefix_matches [OF assms(2), of d name prefix lvl] show ?thesis
    by (auto simp: walk_matches_Some)
qed

text \<open>What the refinement says about a call of the walk and about a render.\<close>

lemma walk_displayed:
  assumes "fsys t = Some fs"
  shows "(displayed n t fs name lvl = None \<longrightarrow> treeFSWithPrefix n t name prefix lvl = None) \<and>
         (\<forall>its err. displayed n t fs name lvl = Some (its, err) \<longrightarrow>
            (\<exists>t'. treeFSWithPrefix n t name prefix lvl = Some (t', err) \<and> same_options t t' \<and>
                  tree t' = tree t @ added t t' \<and> list_all2 (shows_entry t) (added t t') its \<and>
                  NDirs t' = NDirs t + count_dirs its \<and> NFiles t' = NFiles t + count_files its))"
proof (intro conjI allI impI)
  assume "displayed n t fs name lvl = None"
  with treeFSWithPrefix_matches [OF assms, of n name prefix lvl]
  show "treeFSWithPrefix n t name prefix lvl = None" by (simp add: walk_matches_None)
next
  fix its err
  assume "displayed n t fs name lvl = Some (its, err)"
  with treeFSWithPrefix_matches [OF assms, of n name prefix lvl]
  obtain t' where "treeFSWithPrefix n t name prefix lvl = Some (t', err)" "grows t t'"
    "list_all2 (shows_entry t) (added t t') its"
    "NDirs t' = NDirs t + count_dirs its" "NFiles t' = NFiles t + count_files its"
    by (auto simp: walk_matches_Some)
  then show "\<exists>t'. treeFSWithPrefix n t name prefix lvl = Some (t', err) \<and> same_options t t' \<and>
                  tree t' = tree t @ added t t' \<and> list_all2 (shows_entry t) (added t t') its \<and>
                  NDirs t' = NDirs t + count_dirs its \<and> NFiles t' = NFiles t + count_files its"
    using grows_added grows_same_options by blast
qed

lemma New_displayed:
  assumes "\<forall>opt \<in> set opts. package_opt opt"
  shows "(displayed fuel (New_state fs root opts) fs (walk_root root) 0 = None \<longrightarrow>
            New fuel fs root opts = None) \<and>
         (\<forall>its err. displayed fuel (New_state fs root opts) fs (walk_root root) 0 = Some (its, err) \<longrightarrow>
            (\<exists>tfs. New fuel fs root opts = Some (tfs, err) \<and> same_options (New_state fs root opts) tfs \<and>
                  hd (tree tfs) = root \<and> length (tree tfs) = 1 + length its \<and>
                  list_all2 (shows_entry (New_state fs root opts)) (tl (tree tfs)) its \<and>
                  NDirs tfs = count_dirs its \<and> NFiles tfs = count_files its))"
proof -
  let ?s = "New_state fs root opts"
  note f = New_state_fields [OF assms, of fs root]
  from f have fsys: "fsys ?s = Some fs" by simp
  note w = walk_displayed [OF fsys, of fuel "walk_root root" 0 "[]"]
  show ?thesis
  proof (intro conjI allI impI)
    assume "displayed fuel ?s fs (walk_root root) 0 = None"
    with w show "New fuel fs root opts = None" by (simp add: New_walk)
  next
    fix its err
    assume "displayed fuel ?s fs (walk_root root) 0 = Some (its, err)"
    with w obtain t' where t: "treeFSWithPrefix fuel ?s (walk_root root) [] 0 = Some (t', err)"
      "same_options ?s t'" "tree t' = tree ?s @ added ?s t'"
      "list_all2 (shows_entry ?s) (added ?s t') its"
      "NDirs t' = NDirs ?s + count_dirs its" "NFiles t' = NFiles ?s + count_files its"
      by blast
    from t(3) f have tr: "tree t' = root # added ?s t'" by simp
    from t(4) have "length (added ?s t') = length its" by (rule list_all2_lengthD)
    with t tr f show "\<exists>tfs. New fuel fs root opts = Some (tfs, err) \<and> same_options ?s tfs \<and>
                  hd (tree tfs) = root \<and> length (tree tfs) = 1 + length its \<and>
                  list_all2 (shows_entry ?s) (tl (tree tfs)) its \<and>
                  NDirs tfs = count_dirs its \<and> NFiles tfs = count_files its"
      by (simp add: New_walk)
  qed
qed

lemma New_displayed_conv:
  assumes "\<forall>opt \<in> set opts. package_opt opt" and "New fuel fs root opts = Some (tfs, err)"
  shows "\<exists>its. displayed fuel (New_state fs root opts) fs (walk_root root) 0 = Some (its, err) \<and>
           length (tree tfs) = 1 + length its \<and>
           list_all2 (shows_entry (New_state fs root opts)) (tl (tree tfs)) its \<and>
           NDirs tfs = count_dirs its \<and> NFiles tfs = count_files its"
proof (cases "displayed fuel (New_state fs root opts) fs (walk_root root) 0")
  case None
  with New_displayed [OF assms(1), of fuel fs root] assms(2) show ?thesis by simp
next
  case (Some p)
  obtain its e where p: "p = (its, e)" by (cases p)
  with Some New_displayed [OF assms(1), of fuel fs root] assms(2) show ?thesis by auto
qed

lemma New_state_append_Level:
  assumes "0 < l"
  shows "New_state fs root (opts @ [Level l]) = (New_state fs root opts)\<lparr>level := l\<rparr>"
  using assms by (simp add: New_state_def Let_def Level_def)

subsection \<open>The traversal on the sample file systems\<close>

lemma displayed_fsH:
  "displayed 3 (New_state fsH ''.'' []) fsH (walk_root ''.'') 0 =
     Some ([(0, ''.'', mkFile ''a1.test''), (0, ''.'', mkDir ''b''), (1, ''b'', mkFile ''b1.test''),
            (1, ''b'', mkDir ''d''), (2, ''b/d'', mkFile ''d1.test'')], None)"
  by (simp add: New_state_def walk_root_def fsH_def mkFile_def mkDir_def excluded_def
        strings_HasPrefix_def path_Join_def path_Clean_def numeral_3_eq_3 Let_def)

lemma displayed_fsA:
  "displayed 3 (New_state fsA ''.'' []) fsA (walk_root ''.'') 0 =
     Some ([(0, ''.'', mkFile ''a1.test''), (0, ''.'', mkFile ''a2.test''),
            (0, ''.'', mkFile ''a3.test''), (0, ''.'', mkDir ''b''),
            (1, ''b'', mkFile ''b1.test''), (1, ''b'', mkFile ''b2.test''),
            (1, ''b'', mkFile ''b3.test''), (1, ''b'', mkDir ''d''),
            (2, ''b/d'', mkFile ''d1.test''), (0, ''.'', mkDir ''c''),
            (1, ''c'', mkFile ''c1.test''), (1, ''c'', mkFile ''c2.test'')], None)"
  by (simp add: New_state_def walk_root_def fsA_def mkFile_def mkDir_def excluded_def
        strings_HasPrefix_def path_Join_def path_Clean_def numeral_3_eq_3 Let_def)

subsection \<open>The walk under a depth limit, against the traversal\<close>

lemma count_dirs_map:
  "count_dirs (map (\<lambda>e. (l, d, e)) es) = int (length (filter IsDir es))"
  "count_files (map (\<lambda>e. (l, d, e)) es) = int (length (filter (\<lambda>e. \<not> IsDir e) es))"
  by (simp_all add: count_dirs_def count_files_def item_entry_def filter_map o_def)

lemma filter_allow: "filter (\<lambda>e. \<not> excluded t e) es = filter (allow t) es"
  by (induction es) (simp_all add: allow_iff_not_excluded)

lemma shows_entry_level: "shows_entry (t\<lparr>level := l\<rparr>) = shows_entry t"
  by (simp add: fun_eq_iff shows_entry_def displayed_name_def)

lemma walk_boundary:
  assumes "0 < level t" and "lvl + 1 = level t" and "fsys t = Some fs" and "fs name = Inr es"
  shows "\<exists>t'. treeFSWithPrefix (Suc (Suc n)) t name prefix lvl = Some (t', None) \<and>
           same_options t t' \<and> tree t' = tree t @ added t t' \<and>
           list_all2 (shows_entry t) (added t t') (map (\<lambda>e. (lvl, name, e)) (filter (allow t) es)) \<and>
           NDirs t' = NDirs t + int (length (filter IsDir (filter (allow t) es))) \<and>
           NFiles t' = NFiles t + int (length (filter (\<lambda>e. \<not> IsDir e) (filter (allow t) es)))"
proof -
  have d: "displayed (Suc (Suc n)) t fs name lvl =
      Some (map (\<lambda>e. (lvl, name, e)) (filter (allow t) es), None)"
    using displayed_boundary [where fs = fs and name = name, OF assms(1,2,4), of n] by (simp only: filter_allow)
  from walk_displayed [OF assms(3), of "Suc (Suc n)" name lvl prefix, THEN conjunct2, rule_format, OF d]
  show ?thesis by (simp only: count_dirs_map)
qed

lemma New_Level_render:
  assumes "\<forall>opt \<in> set opts. package_opt opt" and "0 < l"
  shows "\<exists>tfs err its. New (Suc (nat l)) fs root (opts @ [Level l]) = Some (tfs, err) \<and>
           displayed (Suc (nat l)) (New_state fs root (opts @ [Level l])) fs (walk_root root) 0 =
             Some (its, err) \<and>
           (\<forall>it \<in> set its. item_depth it < l) \<and> length (tree tfs) = 1 + length its \<and>
           list_all2 (shows_entry (New_state fs root (opts @ [Level l]))) (tl (tree tfs)) its \<and>
           NDirs tfs = count_dirs its \<and> NFiles tfs = count_files its"
proof -
  let ?s = "New_state fs root (opts @ [Level l])"
  have p: "\<forall>opt \<in> set (opts @ [Level l]). package_opt opt"
    using assms(1) by (auto simp: package_opt_def)
  from New_state_Level [OF assms, of fs root] have s: "level ?s = l" "fsys ?s \<noteq> None"
    by simp_all
  from s assms(2) have "\<exists>r. New (Suc (nat l)) fs root (opts @ [Level l]) = Some r"
    unfolding New_walk by (intro treeFSWithPrefix_returns_within_level) simp_all
  then obtain tfs err where n: "New (Suc (nat l)) fs root (opts @ [Level l]) = Some (tfs, err)"
    by auto
  from New_displayed_conv [OF p n] obtain its where
    i: "displayed (Suc (nat l)) ?s fs (walk_root root) 0 = Some (its, err)"
       "length (tree tfs) = 1 + length its"
       "list_all2 (shows_entry ?s) (tl (tree tfs)) its"
       "NDirs tfs = count_dirs its" "NFiles tfs = count_files its"
    by blast
  from displayed_depth_less [OF i(1)] s(1) assms(2)
  have "\<forall>it \<in> set its. item_depth it < l" by simp
  with n i show ?thesis by blast
qed

lemma New_Level_cut:
  assumes "\<forall>opt \<in> set opts. package_opt opt" and "level (New_state fs root opts) \<le> 0" and "0 < l"
    and "New fuel fs root opts = Some (tfs0, None)"
  shows "\<exists>its tfs. displayed fuel (New_state fs root opts) fs (walk_root root) 0 = Some (its, None) \<and>
           list_all2 (shows_entry (New_state fs root opts)) (tl (tree tfs0)) its \<and>
           New fuel fs root (opts @ [Level l]) = Some (tfs, None) \<and>
           length (tree tfs) = 1 + length (filter (\<lambda>it. item_depth it < l) its) \<and>
           list_all2 (shows_entry (New_state fs root opts)) (tl (tree tfs))
             (filter (\<lambda>it. item_depth it < l) its) \<and>
           NDirs tfs = count_dirs (filter (\<lambda>it. item_depth it < l) its) \<and>
           NFiles tfs = count_files (filter (\<lambda>it. item_depth it < l) its)"
proof -
  let ?s = "New_state fs root opts"
  have p: "\<forall>opt \<in> set (opts @ [Level l]). package_opt opt"
    using assms(1) by (auto simp: package_opt_def)
  from New_displayed_conv [OF assms(1,4)] obtain its where
    i: "displayed fuel ?s fs (walk_root root) 0 = Some (its, None)"
       "list_all2 (shows_entry ?s) (tl (tree tfs0)) its"
    by blast
  from assms(3) have "(0::int) \<le> l" by simp
  from displayed_cut [OF assms(2,3) i(1) this]
  have "displayed fuel (New_state fs root (opts @ [Level l])) fs (walk_root root) 0 =
          Some (filter (\<lambda>it. item_depth it < l) its, None)"
    by (simp only: New_state_append_Level [OF assms(3)])
  from New_displayed [OF p, of fuel fs root, THEN conjunct2, rule_format, OF this]
  obtain tfs where "New fuel fs root (opts @ [Level l]) = Some (tfs, None)"
    "length (tree tfs) = 1 + length (filter (\<lambda>it. item_depth it < l) its)"
    "list_all2 (shows_entry (New_state fs root (opts @ [Level l]))) (tl (tree tfs))
       (filter (\<lambda>it. item_depth it < l) its)"
    "NDirs tfs = count_dirs (filter (\<lambda>it. item_depth it < l) its)"
    "NFiles tfs = count_files (filter (\<lambda>it. item_depth it < l) its)"
    by blast
  with i show ?thesis
    by (auto simp only: New_state_append_Level [OF assms(3)] shows_entry_level)
qed

lemma walk_unlimited:
  assumes "level t \<le> 0" and "fsys t = Some fs"
    and "treeFSWithPrefix n t name prefix lvl = Some (t', None)"
  shows "\<exists>its. displayed n t fs name lvl = Some (its, None) \<and>
           list_all2 (shows_entry t) (added t t') its \<and>
           (\<exists>es. fs name = Inr es \<and> (\<forall>e \<in> set es. allow t e \<longrightarrow> (lvl, name, e) \<in> set its)) \<and>
           (\<forall>it \<in> set its. IsDir (item_entry it) \<longrightarrow>
              (\<exists>es. fs (path_Join (item_dir it) (Name (item_entry it))) = Inr es \<and>
                 (\<forall>e \<in> set es. allow t e \<longrightarrow>
                    (item_depth it + 1, path_Join (item_dir it) (Name (item_entry it)), e) \<in> set its)))"
proof -
  note d = walk_displayed [OF assms(2), of n name lvl prefix]
  from d assms(3) obtain its where
    i: "displayed n t fs name lvl = Some (its, None)" "list_all2 (shows_entry t) (added t t') its"
    by (cases "displayed n t fs name lvl") auto
  from assms(1) have nl: "\<not> (0 < level t \<and> lvl = level t)" by simp
  from displayed_root_entries [OF i(1) nl] displayed_closed [OF i(1)] assms(1) i
  show ?thesis by (simp add: allow_iff_not_excluded)
qed

lemma displayed_fsA_Level2:
  "displayed (Suc (nat 2)) (New_state fsA ''.'' ([] @ [Level 2])) fsA (walk_root ''.'') 0 =
     Some ([(0, ''.'', mkFile ''a1.test''), (0, ''.'', mkFile ''a2.test''),
            (0, ''.'', mkFile ''a3.test''), (0, ''.'', mkDir ''b''),
            (1, ''b'', mkFile ''b1.test''), (1, ''b'', mkFile ''b2.test''),
            (1, ''b'', mkFile ''b3.test''), (1, ''b'', mkDir ''d''),
            (0, ''.'', mkDir ''c''),
            (1, ''c'', mkFile ''c1.test''), (1, ''c'', mkFile ''c2.test'')], None)"
  by (simp add: New_state_def walk_root_def fsA_def mkFile_def mkDir_def excluded_def Level_def
        strings_HasPrefix_def path_Join_def path_Clean_def Let_def numeral_3_eq_3)

lemma New_fsA_Level2:
  "New 3 fsA ''.'' [Level 2] =
     Some (\<lparr>fsys = Some fsA,
             tree = [''.'', teeConnector @ '' a1.test'', teeConnector @ '' a2.test'',
                     teeConnector @ '' a3.test'', teeConnector @ '' b'',
                     pipePrefix @ teeConnector @ '' b1.test'',
                     pipePrefix @ teeConnector @ '' b2.test'',
                     pipePrefix @ teeConnector @ '' b3.test'',
                     pipePrefix @ elbowConnector @ '' d'',
                     elbowConnector @ '' c'',
                     spacePrefix @ teeConnector @ '' c1.test'',
                     spacePrefix @ elbowConnector @ '' c2.test''],
             pathPrefix = ''.'', NDirs = 3, NFiles = 8, hidden = False, dirOnly = False,
             fullPathPrefix = False, level = 2\<rparr>, None)"
  by (simp add: sample_defs fsA_def numeral_3_eq_3)

subsection \<open>What a failed walk returns\<close>

lemma walk_root_failure:
  assumes "\<forall>opt \<in> set opts. package_opt opt" and "fs (walk_root root) = Inl err"
  shows "New (Suc n) fs root opts = Some (New_state fs root opts, Some err)"
proof -
  from New_state_fields [OF assms(1), of fs root]
  have f: "fsys (New_state fs root opts) = Some fs" by simp
  have "\<not> (0 < level (New_state fs root opts) \<and> 0 = level (New_state fs root opts))" by auto
  with f assms(2) show ?thesis unfolding New_walk by auto
qed

lemma entries_loop_abort:
  assumes "allow t e" and "IsDir e" and "fsys t = Some fs" and "fs (path_Join name (Name e)) = Inl err"
    and "\<not> (0 < level t \<and> lvl + 1 = level t)"
  shows "entries_loop (treeFSWithPrefix (Suc n)) t name prefix lvl num i (e # es) =
           Some (append_tfs (t\<lparr>NDirs := NDirs t + 1\<rparr>) prefix
                   (if i = num - 1 then elbowConnector else teeConnector) name (Name e), Some err)"
proof -
  let ?t1 = "append_tfs (t\<lparr>NDirs := NDirs t + 1\<rparr>) prefix
           (if i = num - 1 then elbowConnector else teeConnector) name (Name e)"
  have s: "same_options t ?t1"
    using grows_same_options [OF grows_dir, of t] by simp
  then have "level ?t1 = level t" "fsys ?t1 = Some fs"
    using assms(3) by (simp_all add: same_options_def)
  with assms(4,5) have "treeFSWithPrefix (Suc n) ?t1 (path_Join name (Name e))
      (if i \<noteq> num - 1 then prefix @ pipePrefix else prefix @ spacePrefix) (lvl + 1) = Some (?t1, Some err)"
    by auto
  with assms(1,2) show ?thesis
    by (simp only: entries_loop_dir option.case prod.case)
qed

lemma New_failure_total:
  assumes "\<forall>opt \<in> set opts. package_opt opt"
    and "displayed fuel (New_state fs root opts) fs (walk_root root) 0 = Some (its, Some err)"
  shows "failed_at fs (walk_root root) its err \<and>
         (\<exists>tfs. New fuel fs root opts = Some (tfs, Some err) \<and>
            hd (tree tfs) = root \<and> length (tree tfs) = 1 + length its \<and>
            list_all2 (shows_entry (New_state fs root opts)) (tl (tree tfs)) its \<and>
            NDirs tfs = count_dirs its \<and> NFiles tfs = count_files its) \<and>
         Tree fuel fs root opts = Some ([], Some err) \<and>
         Graph_fn fuel fs root opts = Some ([], Some err) \<and>
         Meta_fn fuel fs root opts = Some ([], Some err)"
proof -
  note n = New_displayed [OF assms(1), of fuel fs root, THEN conjunct2, rule_format, OF assms(2)]
  from n obtain tfs where t: "New fuel fs root opts = Some (tfs, Some err)" by blast
  from t have "Tree fuel fs root opts = Some ([], Some err)"
    "Graph_fn fuel fs root opts = Some ([], Some err)"
    "Meta_fn fuel fs root opts = Some ([], Some err)"
    by (simp_all add: Tree_def Graph_fn_def Meta_fn_def)
  with n displayed_error [OF assms(2)] show ?thesis by blast
qed

lemma New_failure_source:
  assumes "\<forall>opt \<in> set opts. package_opt opt" and "New fuel fs root opts = Some (tfs, Some err)"
  shows "(\<exists>its. displayed fuel (New_state fs root opts) fs (walk_root root) 0 = Some (its, Some err) \<and>
            failed_at fs (walk_root root) its err \<and> length (tree tfs) = 1 + length its \<and>
            list_all2 (shows_entry (New_state fs root opts)) (tl (tree tfs)) its \<and>
            NDirs tfs = count_dirs its \<and> NFiles tfs = count_files its) \<and>
         (\<exists>p. visits (New_state fs root opts) fs (walk_root root) 0 p \<and> fs p = Inl err) \<and>
         Tree fuel fs root opts = Some ([], Some err) \<and>
         Graph_fn fuel fs root opts = Some ([], Some err) \<and>
         Meta_fn fuel fs root opts = Some ([], Some err)"
proof -
  from New_displayed_conv [OF assms] obtain its where
    i: "displayed fuel (New_state fs root opts) fs (walk_root root) 0 = Some (its, Some err)"
       "length (tree tfs) = 1 + length its"
       "list_all2 (shows_entry (New_state fs root opts)) (tl (tree tfs)) its"
       "NDirs tfs = count_dirs its" "NFiles tfs = count_files its"
    by blast
  from New_state_fields [OF assms(1), of fs root]
  have f: "fsys (New_state fs root opts) = Some fs" by simp
  from assms(2)
  have "treeFSWithPrefix fuel (New_state fs root opts) (walk_root root) [] 0 = Some (tfs, Some err)"
    by (simp add: New_walk)
  from error_comes_from_visited [OF this f]
  have v: "\<exists>p. visits (New_state fs root opts) fs (walk_root root) 0 p \<and> fs p = Inl err" .
  from assms(2) have "Tree fuel fs root opts = Some ([], Some err)"
    "Graph_fn fuel fs root opts = Some ([], Some err)"
    "Meta_fn fuel fs root opts = Some ([], Some err)"
    by (simp_all add: Tree_def Graph_fn_def Meta_fn_def)
  with i displayed_error [OF i(1)] v show ?thesis by blast
qed

lemma New_success_lists_all:
  assumes "\<forall>opt \<in> set opts. package_opt opt" and "New fuel fs root opts = Some (tfs, None)"
    and "visits (New_state fs root opts) fs (walk_root root) 0 p"
  shows "\<exists>es. fs p = Inr es"
proof -
  from New_state_fields [OF assms(1), of fs root]
  have f: "fsys (New_state fs root opts) = Some fs" by simp
  from assms(2)
  have "treeFSWithPrefix fuel (New_state fs root opts) (walk_root root) [] 0 = Some (tfs, None)"
    by (simp add: New_walk)
  from success_lists_every_visited [OF this f assms(3)] show ?thesis
    by (cases "fs p") auto
qed

lemma New_deep_failure:
  assumes "\<forall>opt \<in> set opts. package_opt opt"
    and "deep d (New_state fs root opts) fs (walk_root root) 0"
    and "visits (New_state fs root opts) fs (walk_root root) 0 p" and "fs p = Inl e"
  shows "\<exists>tfs err. New d fs root opts = Some (tfs, Some err) \<and>
           (\<exists>q. visits (New_state fs root opts) fs (walk_root root) 0 q \<and> fs q = Inl err) \<and>
           Tree d fs root opts = Some ([], Some err)"
proof -
  from New_state_fields [OF assms(1), of fs root]
  have f: "fsys (New_state fs root opts) = Some fs" by simp
  from deep_walk_returns [OF assms(2) f, of "[]"] obtain tfs r where
    n: "New d fs root opts = Some (tfs, r)"
    by (auto simp: New_walk)
  show ?thesis
  proof (cases r)
    case None
    with New_success_lists_all [OF assms(1) _ assms(3)] n assms(4) show ?thesis by auto
  next
    case (Some err)
    with New_failure_source [OF assms(1), of d fs root tfs err] n show ?thesis by blast
  qed
qed

lemma NewMulti_first_failure:
  assumes "list_all2 (\<lambda>a r. New fuel (Fsys a) (ArgName a) (Opts a) = Some (r, None)) args1 rs"
    and "New fuel (Fsys a) (ArgName a) (Opts a) = Some (t2, Some err)"
  shows "NewMulti fuel (args1 @ a # args2) =
           Some (zeroTreeFS\<lparr>tree := concat (map tree rs), NDirs := sum_list (map NDirs rs),
                            NFiles := sum_list (map NFiles rs)\<rparr>, Some err)"
  unfolding NewMulti_def NewMulti_loop_first_failure [OF assms]
  by (simp add: zeroTreeFS_def)

lemma displayed_fsErr2:
  "displayed 3 (New_state fsErr2 ''.'' []) fsErr2 (walk_root ''.'') 0 =
     Some ([(0, ''.'', mkFile ''a''), (0, ''.'', mkDir ''b''), (1, ''b'', mkFile ''b1''),
            (1, ''b'', mkDir ''d'')], Some (ListError ''b/d''))"
  by (simp add: New_state_def walk_root_def fsErr2_def mkFile_def mkDir_def excluded_def
        strings_HasPrefix_def path_Join_def path_Clean_def numeral_3_eq_3 Let_def)

lemma New_fsErr2:
  "New 3 fsErr2 ''.'' [] =
     Some (\<lparr>fsys = Some fsErr2,
             tree = [''.'', teeConnector @ '' a'', teeConnector @ '' b'',
                     pipePrefix @ teeConnector @ '' b1'', pipePrefix @ teeConnector @ '' d''],
             pathPrefix = ''.'', NDirs = 2, NFiles = 2, hidden = False, dirOnly = False,
             fullPathPrefix = False, level = 0\<rparr>, Some (ListError ''b/d''))"
  by (simp add: sample_defs fsErr2_def numeral_3_eq_3)

subsection \<open>The summary of a report and the names in full paths\<close>

text \<open>
  For every \<^verbatim>\<open>TreeFS\<close> value the summary is the directory count, a space and the word
  \<^verbatim>\<open>directory\<close> when the count is 1, \<^verbatim>\<open>directories\<close> otherwise; unless \<open>dirOnly\<close> is
  set in that value it goes on with a comma, the file count and \<^verbatim>\<open>file\<close> when that count
  is 1, \<^verbatim>\<open>files\<close> otherwise. The full report is the lines joined by newlines, an empty
  line and the summary. A render by \<^verbatim>\<open>New\<close> with the option \<^verbatim>\<open>DirOnly\<close> returns a value
  with \<open>dirOnly\<close> set and a file count of 0.
\<close>

lemma Meta_summary_format:
  "Meta t = itoa (NDirs t) @ '' '' @ (if NDirs t = 1 then ''directory'' else ''directories'') @
            (if dirOnly t then []
             else '', '' @ itoa (NFiles t) @ '' '' @ (if NFiles t = 1 then ''file'' else ''files'')) \<and>
   String t = strings_Join (tree t) [CHR 0x0A] @ [CHR 0x0A, CHR 0x0A] @ Meta t \<and>
   ((\<forall>opt \<in> set opts. package_opt opt) \<and> DirOnly \<in> set opts \<and>
    New fuel fs name opts = Some (tfs, err) \<longrightarrow> dirOnly tfs \<and> NFiles tfs = 0)"
proof (intro conjI impI)
  show "Meta t = itoa (NDirs t) @ '' '' @ (if NDirs t = 1 then ''directory'' else ''directories'') @
            (if dirOnly t then []
             else '', '' @ itoa (NFiles t) @ '' '' @ (if NFiles t = 1 then ''file'' else ''files''))"
    by (simp add: Meta_def Let_def)
  show "String t = strings_Join (tree t) [CHR 0x0A] @ [CHR 0x0A, CHR 0x0A] @ Meta t"
    by (simp add: String_def Graph_def)
next
  assume a: "(\<forall>opt \<in> set opts. package_opt opt) \<and> DirOnly \<in> set opts \<and>
    New fuel fs name opts = Some (tfs, err)"
  then have s: "dirOnly (New_state fs name opts)" "NFiles (New_state fs name opts) = 0"
    using New_state_fields [of opts fs name] by simp_all
  from a have "New fuel fs name opts = Some (tfs, err)" by simp
  then have g: "grows (New_state fs name opts) tfs"
    by (rule New_grows)
  from g s show "dirOnly tfs" by (simp add: grows_def same_options_def)
  from g s show "NFiles tfs = 0" by (simp add: grows_def)
qed

text \<open>
  \<^verbatim>\<open>New\<close> walks from \<open>walk_root name\<close> with the state \<open>New_state\<close>: when the root name
  has the substring \<^verbatim>\<open>../\<close> or is \<^verbatim>\<open>.\<close>, the walk starts from \<^verbatim>\<open>.\<close> and \<open>pathPrefix\<close>
  holds the name; otherwise it starts from the name and \<open>pathPrefix\<close> is empty. With
  \<^verbatim>\<open>FullPathPrefix\<close> every line after the root's is the line of an entry \<open>e\<close> that the
  filter lets through, listed in a directory \<open>dir\<close> the walk visits, and its displayed name
  is \<^verbatim>\<open>path.Join(dir, e)\<close>, preceded by the recorded name and a slash when there is one.
\<close>

lemma FullPathPrefix_names:
  "New fuel fs name opts = treeFSWithPrefix fuel (New_state fs name opts) (walk_root name) [] 0 \<and>
   walk_root name = (if strings_Contains name ''../'' \<or> name = ''.'' then ''.'' else name) \<and>
   ((\<forall>opt \<in> set opts. package_opt opt) \<longrightarrow>
      pathPrefix (New_state fs name opts) =
        (if strings_Contains name ''../'' \<or> name = ''.'' then name else [])) \<and>
   ((\<forall>opt \<in> set opts. package_opt opt) \<and> FullPathPrefix \<in> set opts \<and>
    New fuel fs name opts = Some (tfs, err) \<longrightarrow>
      (\<forall>line \<in> set (tl (tree tfs)).
         \<exists>pre conn dir es e.
           visits (New_state fs name opts) fs (walk_root name) 0 dir \<and> fs dir = Inr es \<and>
           e \<in> set es \<and> allow (New_state fs name opts) e \<and>
           (conn = elbowConnector \<or> conn = teeConnector) \<and>
           line = pre @ conn @ '' '' @
             (if strings_Contains name ''../'' \<or> name = ''.''
              then name @ ''/'' @ path_Join dir (Name e)
              else path_Join dir (Name e)))) \<and>
   (fullPathPrefix t \<longrightarrow>
      tree (append_tfs t prefix connector dirPath nm) =
      tree t @ [prefix @ connector @ '' '' @
                (if pathPrefix t \<noteq> [] then pathPrefix t @ ''/'' @ path_Join dirPath nm
                 else path_Join dirPath nm)])"
proof (intro conjI impI ballI)
  show "New fuel fs name opts = treeFSWithPrefix fuel (New_state fs name opts) (walk_root name) [] 0"
    by (rule New_walk)
  show "walk_root name = (if strings_Contains name ''../'' \<or> name = ''.'' then ''.'' else name)"
    by (simp add: walk_root_def)
  show "pathPrefix (New_state fs name opts) =
        (if strings_Contains name ''../'' \<or> name = ''.'' then name else [])"
    if "\<forall>opt \<in> set opts. package_opt opt"
    using New_state_fields [OF that, of fs name] by simp
  show "tree (append_tfs t prefix connector dirPath nm) =
      tree t @ [prefix @ connector @ '' '' @
                (if pathPrefix t \<noteq> [] then pathPrefix t @ ''/'' @ path_Join dirPath nm
                 else path_Join dirPath nm)]"
    if "fullPathPrefix t"
    using that by (simp add: append_tfs_def)
next
  fix line
  let ?s = "New_state fs name opts"
  assume a: "(\<forall>opt \<in> set opts. package_opt opt) \<and> FullPathPrefix \<in> set opts \<and>
    New fuel fs name opts = Some (tfs, err)"
    and line: "line \<in> set (tl (tree tfs))"
  then have p: "\<forall>opt \<in> set opts. package_opt opt" by simp
  note f = New_state_fields [OF p, of fs name]
  from a have w: "treeFSWithPrefix fuel ?s (walk_root name) [] 0 = Some (tfs, err)"
    by (simp add: New_walk)
  from f have fsys: "fsys ?s = Some fs" by simp
  from w have "tree tfs = tree ?s @ added ?s tfs"
    by (intro grows_added treeFSWithPrefix_grows)
  with f line have "line \<in> set (added ?s tfs)" by simp
  with treeFSWithPrefix_lines [OF w fsys] have "entry_line ?s fs (walk_root name) 0 line"
    by blast
  then obtain pre conn dir es e where v: "visits ?s fs (walk_root name) 0 dir"
    and r: "fs dir = Inr es" "e \<in> set es" "allow ?s e" "conn = elbowConnector \<or> conn = teeConnector"
      "line = pre @ conn @ '' '' @ displayed_name ?s dir (Name e)"
    unfolding entry_line_def by blast
  from a f have fp: "fullPathPrefix ?s" by simp
  have "displayed_name ?s dir (Name e) =
      (if strings_Contains name ''../'' \<or> name = ''.''
       then name @ ''/'' @ path_Join dir (Name e) else path_Join dir (Name e))"
  proof (cases "strings_Contains name ''../'' \<or> name = ''.''")
    case True
    with f substituted_name_not_empty [OF True] have "pathPrefix ?s = name" "pathPrefix ?s \<noteq> []"
      by simp_all
    with fp True show ?thesis by (simp add: displayed_name_def)
  next
    case False
    with f have "pathPrefix ?s = []" by simp
    with fp False show ?thesis by (simp add: displayed_name_def)
  qed
  with r(5) have l: "line = pre @ conn @ '' '' @
             (if strings_Contains name ''../'' \<or> name = ''.''
              then name @ ''/'' @ path_Join dir (Name e)
              else path_Join dir (Name e))"
    by simp
  from v r(1-4) l show "\<exists>pre conn dir es e.
           visits ?s fs (walk_root name) 0 dir \<and> fs dir = Inr es \<and>
           e \<in> set es \<and> allow ?s e \<and>
           (conn = elbowConnector \<or> conn = teeConnector) \<and>
           line = pre @ conn @ '' '' @
             (if strings_Contains name ''../'' \<or> name = ''.''
              then name @ ''/'' @ path_Join dir (Name e)
              else path_Join dir (Name e))"
    by blast
qed

lemma New_state_plain:
  "New_state fs ''.'' [] =
     \<lparr>fsys = Some fs, tree = [''.''], pathPrefix = ''.'', NDirs = 0, NFiles = 0,
      hidden = False, dirOnly = False, fullPathPrefix = False, level = 0\<rparr>"
  by (simp add: New_state_def)

lemma deep_fsErr2: "deep 3 (New_state fsErr2 ''.'' []) fsErr2 (walk_root ''.'') 0"
  by (simp add: New_state_plain walk_root_def fsErr2_def mkFile_def mkDir_def excluded_def
        strings_HasPrefix_def path_Join_def path_Clean_def numeral_3_eq_3)

lemma visits_fsErr2: "visits (New_state fsErr2 ''.'' []) fsErr2 (walk_root ''.'') 0 ''b/d''"
proof -
  let ?s = "New_state fsErr2 ''.'' []"
  have l: "\<And>k. \<not> (level ?s > 0 \<and> k = level ?s)" by (simp add: New_state_plain)
  have a: "allow ?s (mkDir ''b'')" "allow ?s (mkDir ''d'')"
    by (simp_all add: New_state_plain allow_def mkDir_def strings_HasPrefix_def)
  have j: "path_Join ''.'' (Name (mkDir ''b'')) = ''b''" "path_Join ''b'' (Name (mkDir ''d'')) = ''b/d''"
    by (simp_all add: path_Join_def path_Clean_def mkDir_def)
  have 1: "visits ?s fsErr2 ''b/d'' (0 + 1 + 1) ''b/d''"
    by (rule visits.visits_here [OF l])
  have "visits ?s fsErr2 (path_Join ''b'' (Name (mkDir ''d''))) (0 + 1 + 1) ''b/d''"
    unfolding j by (rule 1)
  then have 2: "visits ?s fsErr2 ''b'' (0 + 1) ''b/d''"
    by (rule visits.visits_below [where es = "[mkFile ''b1'', mkDir ''d'', mkFile ''e'']" and e = "mkDir ''d''",
          OF l _ _ a(2), rotated 3])
       (simp_all add: fsErr2_def mkDir_def)
  have "visits ?s fsErr2 (path_Join ''.'' (Name (mkDir ''b''))) (0 + 1) ''b/d''"
    unfolding j by (rule 2)
  then have "visits ?s fsErr2 ''.'' 0 ''b/d''"
    by (rule visits.visits_below [where es = "[mkFile ''a'', mkDir ''b'', mkFile ''c'']" and e = "mkDir ''b''",
          OF l _ _ a(1), rotated 3])
       (simp_all add: fsErr2_def mkDir_def)
  then show ?thesis by (simp add: walk_root_def)
qed

section \<open>The claims\<close>

subsection \<open>C1: the connector of the last displayed entry\<close>

text \<open>
  C1 fails on the code: the loop compares the index of an entry in the whole listing with
  the number of all entries, filtered or not. With \<^verbatim>\<open>DirOnly\<close>, in the root listing
  \<^verbatim>\<open>b\<close>, \<^verbatim>\<open>z.txt\<close> the directory \<^verbatim>\<open>b\<close> is the only entry the filter lets through, hence
  the last displayed one; it is drawn with the tee connector, and the line of its child
  \<^verbatim>\<open>d\<close> continues with the pipe segment, where the claim has the elbow connector and
  the space segment.
\<close>

theorem DirOnly_last_displayed_gets_tee:
  "teeConnector \<noteq> elbowConnector \<and> pipePrefix \<noteq> spacePrefix \<and>
   fsB ''.'' = Inr [mkDir ''b'', mkFile ''z.txt''] \<and>
   filter (allow (DirOnly zeroTreeFS)) [mkDir ''b'', mkFile ''z.txt''] = [mkDir ''b''] \<and>
   New 3 fsB ''.'' [DirOnly] =
     Some (\<lparr>fsys = Some fsB,
             tree = [''.'', teeConnector @ '' b'', pipePrefix @ elbowConnector @ '' d''],
             pathPrefix = ''.'', NDirs = 2, NFiles = 0, hidden = False, dirOnly = True,
             fullPathPrefix = False, level = 0\<rparr>, None)"
  using New_fsB_DirOnly
  by (simp add: fsB_def allow_def DirOnly_def zeroTreeFS_def mkDir_def mkFile_def strings_HasPrefix_def
        teeConnector_def elbowConnector_def pipePrefix_def spacePrefix_def)

subsection \<open>C2: the filter\<close>

text \<open>
  C2, as the code has it. An entry is excluded exactly when (a) its name starts with a dot,
  is neither \<^verbatim>\<open>.\<close> nor \<^verbatim>\<open>...\<close>, and \<open>hidden\<close> is not set, or (b) \<open>dirOnly\<close> is set and the
  entry is not a directory; this is the predicate \<open>excluded\<close> of the traversal
  \<open>displayed\<close>, which drops the excluded entries of every listing, at every depth, and
  descends into the directories that remain. The walk agrees with that traversal from
  every directory, depth and state: it has no value when the traversal has none, and
  otherwise returns the error of the traversal beside a state with the same options, one
  added line for each entry of the traversal, in its order and with its displayed name,
  and the counters raised by the numbers of its directories and of its other entries. So
  does a render with the package's options, from the root line alone and both counts 0.
  The entries of the traversal are none of them excluded; when it ends without an error
  they include every entry not excluded of the listing it starts from and of the
  listing of every directory among them above the depth of a positive limit. The three
  steps of the loop are stated for an arbitrary recursive call.
\<close>

theorem allow_excludes:
  "(\<not> allow t e \<longleftrightarrow>
      (strings_HasPrefix (Name e) ''.'' \<and> Name e \<notin> {''.'', ''...''} \<and> \<not> hidden t) \<or>
      (dirOnly t \<and> \<not> IsDir e)) \<and>
   (excluded t e \<longleftrightarrow> \<not> allow t e) \<and>
   (fsys t = Some fs \<longrightarrow>
      (displayed n t fs name lvl = None \<longrightarrow> treeFSWithPrefix n t name prefix lvl = None) \<and>
      (\<forall>its err. displayed n t fs name lvl = Some (its, err) \<longrightarrow>
         (\<exists>t'. treeFSWithPrefix n t name prefix lvl = Some (t', err) \<and> same_options t t' \<and>
               tree t' = tree t @ added t t' \<and> list_all2 (shows_entry t) (added t t') its \<and>
               NDirs t' = NDirs t + count_dirs its \<and> NFiles t' = NFiles t + count_files its))) \<and>
   ((\<forall>opt \<in> set opts. package_opt opt) \<longrightarrow>
      (displayed fuel (New_state fs root opts) fs (walk_root root) 0 = None \<longrightarrow>
         New fuel fs root opts = None) \<and>
      (\<forall>its err. displayed fuel (New_state fs root opts) fs (walk_root root) 0 = Some (its, err) \<longrightarrow>
         (\<exists>tfs. New fuel fs root opts = Some (tfs, err) \<and>
               hd (tree tfs) = root \<and> length (tree tfs) = 1 + length its \<and>
               list_all2 (shows_entry (New_state fs root opts)) (tl (tree tfs)) its \<and>
               NDirs tfs = count_dirs its \<and> NFiles tfs = count_files its))) \<and>
   (\<forall>its err. displayed n t fs name lvl = Some (its, err) \<longrightarrow>
      (\<forall>it \<in> set its. \<not> excluded t (item_entry it))) \<and>
   (\<forall>its. displayed n t fs name lvl = Some (its, None) \<longrightarrow>
      (\<not> (0 < level t \<and> lvl = level t) \<longrightarrow>
         (\<exists>es. fs name = Inr es \<and>
            (\<forall>e \<in> set es. \<not> excluded t e \<longrightarrow> (lvl, name, e) \<in> set its))) \<and>
      (\<forall>it \<in> set its.
         IsDir (item_entry it) \<and> \<not> (0 < level t \<and> item_depth it + 1 = level t) \<longrightarrow>
         (\<exists>es. fs (path_Join (item_dir it) (Name (item_entry it))) = Inr es \<and>
            (\<forall>e \<in> set es. \<not> excluded t e \<longrightarrow>
               (item_depth it + 1, path_Join (item_dir it) (Name (item_entry it)), e) \<in> set its)))) \<and>
   (\<not> allow t e \<longrightarrow>
      entries_loop rec t name prefix lvl num i (e # es) =
      entries_loop rec t name prefix lvl num (i + 1) es) \<and>
   (allow t e \<and> \<not> IsDir e \<longrightarrow>
      entries_loop rec t name prefix lvl num i (e # es) =
      entries_loop rec
        (append_tfs (t\<lparr>NFiles := NFiles t + 1\<rparr>) prefix
           (if i = num - 1 then elbowConnector else teeConnector) name (Name e))
        name prefix lvl num (i + 1) es) \<and>
   (allow t e \<and> IsDir e \<longrightarrow>
      entries_loop rec t name prefix lvl num i (e # es) =
      (case rec (append_tfs (t\<lparr>NDirs := NDirs t + 1\<rparr>) prefix
                   (if i = num - 1 then elbowConnector else teeConnector) name (Name e))
              (path_Join name (Name e))
              (if i \<noteq> num - 1 then prefix @ pipePrefix else prefix @ spacePrefix) (lvl + 1) of
         None \<Rightarrow> None
       | Some (t1, Some err) \<Rightarrow> Some (t1, Some err)
       | Some (t1, None) \<Rightarrow> entries_loop rec t1 name prefix lvl num (i + 1) es))"
proof -
  have 1: "\<not> allow t e \<longleftrightarrow>
      (strings_HasPrefix (Name e) ''.'' \<and> Name e \<notin> {''.'', ''...''} \<and> \<not> hidden t) \<or>
      (dirOnly t \<and> \<not> IsDir e)"
    by (auto simp: allow_def Let_def)
  have 2: "excluded t e \<longleftrightarrow> \<not> allow t e"
    by (simp add: allow_iff_not_excluded)
  have 3: "fsys t = Some fs \<longrightarrow>
      (displayed n t fs name lvl = None \<longrightarrow> treeFSWithPrefix n t name prefix lvl = None) \<and>
      (\<forall>its err. displayed n t fs name lvl = Some (its, err) \<longrightarrow>
         (\<exists>t'. treeFSWithPrefix n t name prefix lvl = Some (t', err) \<and> same_options t t' \<and>
               tree t' = tree t @ added t t' \<and> list_all2 (shows_entry t) (added t t') its \<and>
               NDirs t' = NDirs t + count_dirs its \<and> NFiles t' = NFiles t + count_files its))"
    using walk_displayed [of t fs n name lvl prefix] by blast
  have 4: "(\<forall>opt \<in> set opts. package_opt opt) \<longrightarrow>
      (displayed fuel (New_state fs root opts) fs (walk_root root) 0 = None \<longrightarrow>
         New fuel fs root opts = None) \<and>
      (\<forall>its err. displayed fuel (New_state fs root opts) fs (walk_root root) 0 = Some (its, err) \<longrightarrow>
         (\<exists>tfs. New fuel fs root opts = Some (tfs, err) \<and>
               hd (tree tfs) = root \<and> length (tree tfs) = 1 + length its \<and>
               list_all2 (shows_entry (New_state fs root opts)) (tl (tree tfs)) its \<and>
               NDirs tfs = count_dirs its \<and> NFiles tfs = count_files its))"
    using New_displayed [of opts fuel fs root] by blast
  have 5: "\<forall>its err. displayed n t fs name lvl = Some (its, err) \<longrightarrow>
      (\<forall>it \<in> set its. \<not> excluded t (item_entry it))"
    using displayed_not_excluded [of n t fs name lvl] by blast
  have 6: "\<forall>its. displayed n t fs name lvl = Some (its, None) \<longrightarrow>
      (\<not> (0 < level t \<and> lvl = level t) \<longrightarrow>
         (\<exists>es. fs name = Inr es \<and>
            (\<forall>e \<in> set es. \<not> excluded t e \<longrightarrow> (lvl, name, e) \<in> set its))) \<and>
      (\<forall>it \<in> set its.
         IsDir (item_entry it) \<and> \<not> (0 < level t \<and> item_depth it + 1 = level t) \<longrightarrow>
         (\<exists>es. fs (path_Join (item_dir it) (Name (item_entry it))) = Inr es \<and>
            (\<forall>e \<in> set es. \<not> excluded t e \<longrightarrow>
               (item_depth it + 1, path_Join (item_dir it) (Name (item_entry it)), e) \<in> set its)))"
  proof (intro allI impI conjI)
    fix its
    assume d: "displayed n t fs name lvl = Some (its, None)"
    show "\<exists>es. fs name = Inr es \<and>
            (\<forall>e \<in> set es. \<not> excluded t e \<longrightarrow> (lvl, name, e) \<in> set its)"
      if "\<not> (0 < level t \<and> lvl = level t)"
      using displayed_root_entries [OF d that] .
    show "\<forall>it \<in> set its.
         IsDir (item_entry it) \<and> \<not> (0 < level t \<and> item_depth it + 1 = level t) \<longrightarrow>
         (\<exists>es. fs (path_Join (item_dir it) (Name (item_entry it))) = Inr es \<and>
            (\<forall>e \<in> set es. \<not> excluded t e \<longrightarrow>
               (item_depth it + 1, path_Join (item_dir it) (Name (item_entry it)), e) \<in> set its))"
      using displayed_closed [OF d] .
  qed
  have 7: "\<not> allow t e \<longrightarrow>
      entries_loop rec t name prefix lvl num i (e # es) =
      entries_loop rec t name prefix lvl num (i + 1) es"
    by (simp add: entries_loop_skip)
  have 8: "allow t e \<and> \<not> IsDir e \<longrightarrow>
      entries_loop rec t name prefix lvl num i (e # es) =
      entries_loop rec
        (append_tfs (t\<lparr>NFiles := NFiles t + 1\<rparr>) prefix
           (if i = num - 1 then elbowConnector else teeConnector) name (Name e))
        name prefix lvl num (i + 1) es"
    using entries_loop_file [of t e rec name prefix lvl num i es] by blast
  have 9: "allow t e \<and> IsDir e \<longrightarrow>
      entries_loop rec t name prefix lvl num i (e # es) =
      (case rec (append_tfs (t\<lparr>NDirs := NDirs t + 1\<rparr>) prefix
                   (if i = num - 1 then elbowConnector else teeConnector) name (Name e))
              (path_Join name (Name e))
              (if i \<noteq> num - 1 then prefix @ pipePrefix else prefix @ spacePrefix) (lvl + 1) of
         None \<Rightarrow> None
       | Some (t1, Some err) \<Rightarrow> Some (t1, Some err)
       | Some (t1, None) \<Rightarrow> entries_loop rec t1 name prefix lvl num (i + 1) es)"
    using entries_loop_dir [of t e rec name prefix lvl num i es] by blast
  from 1 2 3 4 5 6 7 8 9 show ?thesis by (intro conjI)
qed

theorem allow_excludes_witness:
  "\<not> allow zeroTreeFS (mkDir ''.git'') \<and> allow zeroTreeFS (mkDir ''...'') \<and>
   allow zeroTreeFS (mkFile ''x'') \<and> \<not> allow (DirOnly zeroTreeFS) (mkFile ''x'') \<and>
   fsH ''b/d'' = Inr [mkFile ''.hidden1'', mkFile ''d1.test''] \<and>
   (\<exists>tfs. New 3 fsH ''.'' [] = Some (tfs, None) \<and> length (tree tfs) = 6 \<and>
      list_all2 (shows_entry (New_state fsH ''.'' [])) (tl (tree tfs))
        [(0, ''.'', mkFile ''a1.test''), (0, ''.'', mkDir ''b''), (1, ''b'', mkFile ''b1.test''),
         (1, ''b'', mkDir ''d''), (2, ''b/d'', mkFile ''d1.test'')] \<and>
      NDirs tfs = 2 \<and> NFiles tfs = 3)"
proof -
  have a: "\<not> allow zeroTreeFS (mkDir ''.git'')" "allow zeroTreeFS (mkFile ''x'')"
    using allow_excludes [of zeroTreeFS "mkDir ''.git''"] allow_excludes [of zeroTreeFS "mkFile ''x''"]
    by (simp_all add: zeroTreeFS_def mkDir_def mkFile_def strings_HasPrefix_def)
  have b: "allow zeroTreeFS (mkDir ''...'')" "\<not> allow (DirOnly zeroTreeFS) (mkFile ''x'')"
    using allow_excludes [of zeroTreeFS "mkDir ''...''"]
      allow_excludes [of "DirOnly zeroTreeFS" "mkFile ''x''"]
    by (simp_all add: zeroTreeFS_def mkDir_def mkFile_def strings_HasPrefix_def DirOnly_def)
  have p: "\<forall>opt \<in> set ([] :: Opt list). package_opt opt" by simp
  let ?its = "[(0::int, ''.'', mkFile ''a1.test''), (0, ''.'', mkDir ''b''), (1, ''b'', mkFile ''b1.test''),
         (1, ''b'', mkDir ''d''), (2, ''b/d'', mkFile ''d1.test'')]"
  note r = allow_excludes [where opts = "[]" and fuel = 3 and fs = fsH and root = "''.''",
      THEN conjunct2, THEN conjunct2, THEN conjunct2, THEN conjunct1, THEN mp, OF p,
      THEN conjunct2, rule_format, OF displayed_fsH]
  from r obtain tfs where t: "New 3 fsH ''.'' [] = Some (tfs, None) \<and>
               hd (tree tfs) = ''.'' \<and> length (tree tfs) = 1 + length ?its \<and>
               list_all2 (shows_entry (New_state fsH ''.'' [])) (tl (tree tfs)) ?its \<and>
               NDirs tfs = count_dirs ?its \<and> NFiles tfs = count_files ?its" ..
  note t1 = t [THEN conjunct1]
  note t3 = t [THEN conjunct2, THEN conjunct2, THEN conjunct1]
  note t4 = t [THEN conjunct2, THEN conjunct2, THEN conjunct2, THEN conjunct1]
  note t5 = t [THEN conjunct2, THEN conjunct2, THEN conjunct2, THEN conjunct2, THEN conjunct1]
  note t6 = t [THEN conjunct2, THEN conjunct2, THEN conjunct2, THEN conjunct2, THEN conjunct2]
  have c: "count_dirs ?its = 2" "count_files ?its = 3"
    by (simp_all add: count_dirs_def count_files_def item_entry_def mkFile_def mkDir_def)
  have f: "fsH ''b/d'' = Inr [mkFile ''.hidden1'', mkFile ''d1.test'']"
    by (simp add: fsH_def)
  from t3 have l: "length (tree tfs) = 6" by simp
  from t5 c have d: "NDirs tfs = 2" by (simp only:)
  from t6 c have e: "NFiles tfs = 3" by (simp only:)
  have "New 3 fsH ''.'' [] = Some (tfs, None) \<and> length (tree tfs) = 6 \<and>
      list_all2 (shows_entry (New_state fsH ''.'' [])) (tl (tree tfs)) ?its \<and>
      NDirs tfs = 2 \<and> NFiles tfs = 3"
    by (intro conjI t1 l t4 d e)
  then have "\<exists>tfs. New 3 fsH ''.'' [] = Some (tfs, None) \<and> length (tree tfs) = 6 \<and>
      list_all2 (shows_entry (New_state fsH ''.'' [])) (tl (tree tfs)) ?its \<and>
      NDirs tfs = 2 \<and> NFiles tfs = 3" ..
  with a b f show ?thesis by (intro conjI)
qed

text \<open>
  The name \<^verbatim>\<open>..\<close> is not exempt: with no option set the filter excludes an entry of that
  name, and a render of a listing \<^verbatim>\<open>..\<close>, \<^verbatim>\<open>...\<close>, \<^verbatim>\<open>x\<close> shows and counts the last two
  only.
\<close>

theorem allow_dotdot_excluded:
  "\<not> allow zeroTreeFS (mkFile ''..'') \<and>
   \<not> ((strings_HasPrefix (Name (mkFile ''..'')) ''.'' \<and>
        Name (mkFile ''..'') \<notin> {''.'', ''..'', ''...''} \<and> \<not> hidden zeroTreeFS) \<or>
       (dirOnly zeroTreeFS \<and> \<not> IsDir (mkFile ''..''))) \<and>
   New 1 fsDots ''.'' [] =
     Some (\<lparr>fsys = Some fsDots,
             tree = [''.'', teeConnector @ '' ...'', elbowConnector @ '' x''],
             pathPrefix = ''.'', NDirs = 0, NFiles = 2, hidden = False, dirOnly = False,
             fullPathPrefix = False, level = 0\<rparr>, None)"
  using New_fsDots
  by (simp add: allow_def zeroTreeFS_def mkFile_def strings_HasPrefix_def)

subsection \<open>C3: the depth limit\<close>

text \<open>
  C3. With \<open>level\<close> set to \<open>L > 0\<close>: a call of the walk at depth \<open>L\<close> returns at once,
  with the state as it was and no error, before anything is listed. A call at depth
  \<open>L - 1\<close> for a directory that can be listed returns without an error, with one line and
  one count for every entry of the listing that the filter lets through, directories
  among them, and nothing else: nothing of the contents of those directories. From a depth
  \<open>lvl \<le> L\<close> the walk returns within \<open>L - lvl + 1\<close> nested calls on every file system. A
  render with the option \<^verbatim>\<open>Level(L)\<close> returns; its lines after the first and its counts
  are those of the entries of the traversal \<open>displayed\<close> under that limit, which are all
  at a depth below \<open>L\<close>. When the render without the limit returns without an error, with
  the lines of the entries \<open>its\<close>, the render with \<^verbatim>\<open>Level(L)\<close> returns without an error
  the lines and the counts of the entries of \<open>its\<close> at a depth below \<open>L\<close>, in the same
  order. With \<open>level \<le> 0\<close> the walk lists the directory at every depth, and a walk that
  returns without an error has displayed, for the directory it starts from and for every
  directory it displays, at whatever depth, every entry that the filter lets through; the
  option \<^verbatim>\<open>Level(l)\<close> with \<open>l \<le> 0\<close> leaves the state as it is.
\<close>

theorem level_limit:
  "(0 < level t \<longrightarrow> treeFSWithPrefix (Suc n) t name prefix (level t) = Some (t, None)) \<and>
   (0 < level t \<and> lvl + 1 = level t \<and> allow t e \<and> IsDir e \<longrightarrow>
      entries_loop (treeFSWithPrefix (Suc n)) t name prefix lvl num i (e # es) =
      entries_loop (treeFSWithPrefix (Suc n))
        (append_tfs (t\<lparr>NDirs := NDirs t + 1\<rparr>) prefix
           (if i = num - 1 then elbowConnector else teeConnector) name (Name e))
        name prefix lvl num (i + 1) es) \<and>
   (0 < level t \<and> lvl \<le> level t \<and> fsys t \<noteq> None \<longrightarrow>
      (\<exists>r. treeFSWithPrefix (Suc (nat (level t - lvl))) t name prefix lvl = Some r)) \<and>
   ((\<forall>opt \<in> set opts. package_opt opt) \<and> 0 < l \<longrightarrow>
      (\<exists>r. New (Suc (nat l)) fs root (opts @ [Level l]) = Some r)) \<and>
   (level t \<le> 0 \<longrightarrow>
      treeFSWithPrefix (Suc n) t name prefix lvl =
      (case fsys t of
         None \<Rightarrow> None
       | Some f \<Rightarrow>
           (case f name of
              Inl err \<Rightarrow> Some (t, Some err)
            | Inr entries \<Rightarrow>
                entries_loop (treeFSWithPrefix n) t name prefix lvl (int (length entries)) 0 entries))) \<and>
   (l \<le> 0 \<longrightarrow> Level l t = t) \<and> (0 < l \<longrightarrow> level (Level l t) = l) \<and>
   (0 < level t \<and> lvl + 1 = level t \<and> fsys t = Some fs \<and> fs name = Inr listing \<longrightarrow>
      (\<exists>t'. treeFSWithPrefix (Suc (Suc n)) t name prefix lvl = Some (t', None) \<and>
         same_options t t' \<and> tree t' = tree t @ added t t' \<and>
         list_all2 (shows_entry t) (added t t')
           (map (\<lambda>e. (lvl, name, e)) (filter (allow t) listing)) \<and>
         NDirs t' = NDirs t + int (length (filter IsDir (filter (allow t) listing))) \<and>
         NFiles t' = NFiles t + int (length (filter (\<lambda>e. \<not> IsDir e) (filter (allow t) listing))))) \<and>
   ((\<forall>opt \<in> set opts. package_opt opt) \<and> 0 < l \<longrightarrow>
      (\<exists>tfs err its. New (Suc (nat l)) fs root (opts @ [Level l]) = Some (tfs, err) \<and>
         displayed (Suc (nat l)) (New_state fs root (opts @ [Level l])) fs (walk_root root) 0 =
           Some (its, err) \<and>
         (\<forall>it \<in> set its. item_depth it < l) \<and> length (tree tfs) = 1 + length its \<and>
         list_all2 (shows_entry (New_state fs root (opts @ [Level l]))) (tl (tree tfs)) its \<and>
         NDirs tfs = count_dirs its \<and> NFiles tfs = count_files its)) \<and>
   ((\<forall>opt \<in> set opts. package_opt opt) \<and> level (New_state fs root opts) \<le> 0 \<and> 0 < l \<and>
    New fuel fs root opts = Some (tfs_all, None) \<longrightarrow>
      (\<exists>its tfs. displayed fuel (New_state fs root opts) fs (walk_root root) 0 = Some (its, None) \<and>
         list_all2 (shows_entry (New_state fs root opts)) (tl (tree tfs_all)) its \<and>
         New fuel fs root (opts @ [Level l]) = Some (tfs, None) \<and>
         length (tree tfs) = 1 + length (filter (\<lambda>it. item_depth it < l) its) \<and>
         list_all2 (shows_entry (New_state fs root opts)) (tl (tree tfs))
           (filter (\<lambda>it. item_depth it < l) its) \<and>
         NDirs tfs = count_dirs (filter (\<lambda>it. item_depth it < l) its) \<and>
         NFiles tfs = count_files (filter (\<lambda>it. item_depth it < l) its))) \<and>
   (level t \<le> 0 \<and> fsys t = Some fs \<and> treeFSWithPrefix n t name prefix lvl = Some (t_end, None) \<longrightarrow>
      (\<exists>its. displayed n t fs name lvl = Some (its, None) \<and>
         list_all2 (shows_entry t) (added t t_end) its \<and>
         (\<exists>es. fs name = Inr es \<and> (\<forall>e \<in> set es. allow t e \<longrightarrow> (lvl, name, e) \<in> set its)) \<and>
         (\<forall>it \<in> set its. IsDir (item_entry it) \<longrightarrow>
            (\<exists>es. fs (path_Join (item_dir it) (Name (item_entry it))) = Inr es \<and>
               (\<forall>e \<in> set es. allow t e \<longrightarrow>
                  (item_depth it + 1, path_Join (item_dir it) (Name (item_entry it)), e) \<in> set its)))))"
proof -
  have 1: "0 < level t \<longrightarrow> treeFSWithPrefix (Suc n) t name prefix (level t) = Some (t, None)"
    by simp
  have 2: "0 < level t \<and> lvl + 1 = level t \<and> allow t e \<and> IsDir e \<longrightarrow>
      entries_loop (treeFSWithPrefix (Suc n)) t name prefix lvl num i (e # es) =
      entries_loop (treeFSWithPrefix (Suc n))
        (append_tfs (t\<lparr>NDirs := NDirs t + 1\<rparr>) prefix
           (if i = num - 1 then elbowConnector else teeConnector) name (Name e))
        name prefix lvl num (i + 1) es"
  proof
    assume a: "0 < level t \<and> lvl + 1 = level t \<and> allow t e \<and> IsDir e"
    let ?t_end = "append_tfs (t\<lparr>NDirs := NDirs t + 1\<rparr>) prefix
           (if i = num - 1 then elbowConnector else teeConnector) name (Name e)"
    have "level ?t_end = level t"
      using grows_same_options [OF grows_dir, of t] by (simp add: same_options_def)
    with a have "treeFSWithPrefix (Suc n) ?t_end (path_Join name (Name e))
        (if i \<noteq> num - 1 then prefix @ pipePrefix else prefix @ spacePrefix) (lvl + 1) = Some (?t_end, None)"
      by simp
    with a show "entries_loop (treeFSWithPrefix (Suc n)) t name prefix lvl num i (e # es) =
        entries_loop (treeFSWithPrefix (Suc n)) ?t_end name prefix lvl num (i + 1) es"
      by (simp only: entries_loop_dir option.case prod.case)
  qed
  have 3: "0 < level t \<and> lvl \<le> level t \<and> fsys t \<noteq> None \<longrightarrow>
      (\<exists>r. treeFSWithPrefix (Suc (nat (level t - lvl))) t name prefix lvl = Some r)"
  proof
    assume "0 < level t \<and> lvl \<le> level t \<and> fsys t \<noteq> None"
    then show "\<exists>r. treeFSWithPrefix (Suc (nat (level t - lvl))) t name prefix lvl = Some r"
      by (intro treeFSWithPrefix_returns_within_level) simp_all
  qed
  have 4: "(\<forall>opt \<in> set opts. package_opt opt) \<and> 0 < l \<longrightarrow>
      (\<exists>r. New (Suc (nat l)) fs root (opts @ [Level l]) = Some r)"
  proof
    assume a: "(\<forall>opt \<in> set opts. package_opt opt) \<and> 0 < l"
    then have "level (New_state fs root (opts @ [Level l])) = l"
      "fsys (New_state fs root (opts @ [Level l])) = Some fs"
      using New_state_Level [of opts l fs root] by simp_all
    with a show "\<exists>r. New (Suc (nat l)) fs root (opts @ [Level l]) = Some r"
      unfolding New_walk by (intro treeFSWithPrefix_returns_within_level) simp_all
  qed
  have 5: "level t \<le> 0 \<longrightarrow>
      treeFSWithPrefix (Suc n) t name prefix lvl =
      (case fsys t of
         None \<Rightarrow> None
       | Some f \<Rightarrow>
           (case f name of
              Inl err \<Rightarrow> Some (t, Some err)
            | Inr entries \<Rightarrow>
                entries_loop (treeFSWithPrefix n) t name prefix lvl (int (length entries)) 0 entries))"
    by simp
  have 6: "l \<le> 0 \<longrightarrow> Level l t = t" by (simp add: Level_def)
  have 7: "0 < l \<longrightarrow> level (Level l t) = l" by (simp add: Level_def)
  have 8: "0 < level t \<and> lvl + 1 = level t \<and> fsys t = Some fs \<and> fs name = Inr listing \<longrightarrow>
      (\<exists>t'. treeFSWithPrefix (Suc (Suc n)) t name prefix lvl = Some (t', None) \<and>
         same_options t t' \<and> tree t' = tree t @ added t t' \<and>
         list_all2 (shows_entry t) (added t t')
           (map (\<lambda>e. (lvl, name, e)) (filter (allow t) listing)) \<and>
         NDirs t' = NDirs t + int (length (filter IsDir (filter (allow t) listing))) \<and>
         NFiles t' = NFiles t + int (length (filter (\<lambda>e. \<not> IsDir e) (filter (allow t) listing))))"
    using walk_boundary [where t = t and lvl = lvl and fs = fs and name = name and es = listing
        and n = n and prefix = prefix]
    by blast
  have 9: "(\<forall>opt \<in> set opts. package_opt opt) \<and> 0 < l \<longrightarrow>
      (\<exists>tfs err its. New (Suc (nat l)) fs root (opts @ [Level l]) = Some (tfs, err) \<and>
         displayed (Suc (nat l)) (New_state fs root (opts @ [Level l])) fs (walk_root root) 0 =
           Some (its, err) \<and>
         (\<forall>it \<in> set its. item_depth it < l) \<and> length (tree tfs) = 1 + length its \<and>
         list_all2 (shows_entry (New_state fs root (opts @ [Level l]))) (tl (tree tfs)) its \<and>
         NDirs tfs = count_dirs its \<and> NFiles tfs = count_files its)"
    using New_Level_render [of opts l fs root] by blast
  have 10: "(\<forall>opt \<in> set opts. package_opt opt) \<and> level (New_state fs root opts) \<le> 0 \<and> 0 < l \<and>
    New fuel fs root opts = Some (tfs_all, None) \<longrightarrow>
      (\<exists>its tfs. displayed fuel (New_state fs root opts) fs (walk_root root) 0 = Some (its, None) \<and>
         list_all2 (shows_entry (New_state fs root opts)) (tl (tree tfs_all)) its \<and>
         New fuel fs root (opts @ [Level l]) = Some (tfs, None) \<and>
         length (tree tfs) = 1 + length (filter (\<lambda>it. item_depth it < l) its) \<and>
         list_all2 (shows_entry (New_state fs root opts)) (tl (tree tfs))
           (filter (\<lambda>it. item_depth it < l) its) \<and>
         NDirs tfs = count_dirs (filter (\<lambda>it. item_depth it < l) its) \<and>
         NFiles tfs = count_files (filter (\<lambda>it. item_depth it < l) its))"
    using New_Level_cut [of opts fs root l fuel tfs_all] by blast
  have 11: "level t \<le> 0 \<and> fsys t = Some fs \<and> treeFSWithPrefix n t name prefix lvl = Some (t_end, None) \<longrightarrow>
      (\<exists>its. displayed n t fs name lvl = Some (its, None) \<and>
         list_all2 (shows_entry t) (added t t_end) its \<and>
         (\<exists>es. fs name = Inr es \<and> (\<forall>e \<in> set es. allow t e \<longrightarrow> (lvl, name, e) \<in> set its)) \<and>
         (\<forall>it \<in> set its. IsDir (item_entry it) \<longrightarrow>
            (\<exists>es. fs (path_Join (item_dir it) (Name (item_entry it))) = Inr es \<and>
               (\<forall>e \<in> set es. allow t e \<longrightarrow>
                  (item_depth it + 1, path_Join (item_dir it) (Name (item_entry it)), e) \<in> set its))))"
    using walk_unlimited [of t fs n name prefix lvl t_end] by blast
  from 1 2 3 4 5 6 7 8 9 10 11 show ?thesis by (intro conjI)
qed

theorem level_limit_witness:
  "(\<exists>tfs. New 3 fsA ''.'' [Level 2] = Some (tfs, None) \<and>
      tree tfs = [''.'', teeConnector @ '' a1.test'', teeConnector @ '' a2.test'',
                  teeConnector @ '' a3.test'', teeConnector @ '' b'',
                  pipePrefix @ teeConnector @ '' b1.test'',
                  pipePrefix @ teeConnector @ '' b2.test'',
                  pipePrefix @ teeConnector @ '' b3.test'',
                  pipePrefix @ elbowConnector @ '' d'',
                  elbowConnector @ '' c'',
                  spacePrefix @ teeConnector @ '' c1.test'',
                  spacePrefix @ elbowConnector @ '' c2.test''] \<and>
      NDirs tfs = 3 \<and> NFiles tfs = 8 \<and>
      NDirs tfs = count_dirs
        [(0, ''.'', mkFile ''a1.test''), (0, ''.'', mkFile ''a2.test''),
         (0, ''.'', mkFile ''a3.test''), (0, ''.'', mkDir ''b''),
         (1, ''b'', mkFile ''b1.test''), (1, ''b'', mkFile ''b2.test''),
         (1, ''b'', mkFile ''b3.test''), (1, ''b'', mkDir ''d''),
         (0, ''.'', mkDir ''c''),
         (1, ''c'', mkFile ''c1.test''), (1, ''c'', mkFile ''c2.test'')]) \<and>
   fsA ''b/d'' = Inr [mkFile ''d1.test''] \<and>
   (\<exists>tfs. New 2 fsA ''.'' [Level 1] = Some (tfs, None) \<and>
      tree tfs = [''.'', teeConnector @ '' a1.test'', teeConnector @ '' a2.test'',
                  teeConnector @ '' a3.test'', teeConnector @ '' b'', elbowConnector @ '' c''] \<and>
      NDirs tfs = 2 \<and> NFiles tfs = 3) \<and>
   Level 0 zeroTreeFS = zeroTreeFS \<and> Level (- 1) zeroTreeFS = zeroTreeFS \<and>
   fsA ''b'' = Inr [mkFile ''b1.test'', mkFile ''b2.test'', mkFile ''b3.test'', mkDir ''d''] \<and>
   (\<exists>t'. treeFSWithPrefix 2 (New_state fsA ''.'' [Level 2]) ''b'' pipePrefix 1 = Some (t', None) \<and>
      length (added (New_state fsA ''.'' [Level 2]) t') = 4 \<and> NDirs t' = 1 \<and> NFiles t' = 3) \<and>
   (\<exists>its tfs. displayed 3 (New_state fsA ''.'' []) fsA (walk_root ''.'') 0 = Some (its, None) \<and>
      length its = 12 \<and> New 3 fsA ''.'' ([] @ [Level 2]) = Some (tfs, None) \<and>
      length (tree tfs) = 1 + length (filter (\<lambda>it. item_depth it < 2) its) \<and>
      length (filter (\<lambda>it. item_depth it < 2) its) = 11)"
proof -
  have p: "\<forall>opt \<in> set ([] :: Opt list). package_opt opt" by simp
  have l: "(0::int) < 2" by simp
  note r = level_limit [where opts = "[]" and l = 2 and fs = fsA and root = "''.''",
      THEN conjunct2, THEN conjunct2, THEN conjunct2, THEN conjunct2, THEN conjunct2,
      THEN conjunct2, THEN conjunct2, THEN conjunct2, THEN conjunct1, THEN mp, OF conjI, OF p l]
  from r obtain tfs err its where
    t: "New (Suc (nat 2)) fsA ''.'' ([] @ [Level 2]) = Some (tfs, err)"
       "displayed (Suc (nat 2)) (New_state fsA ''.'' ([] @ [Level 2])) fsA (walk_root ''.'') 0 =
          Some (its, err)"
       "NDirs tfs = count_dirs its"
    by blast
  from t(2) have i: "its = [(0, ''.'', mkFile ''a1.test''), (0, ''.'', mkFile ''a2.test''),
         (0, ''.'', mkFile ''a3.test''), (0, ''.'', mkDir ''b''),
         (1, ''b'', mkFile ''b1.test''), (1, ''b'', mkFile ''b2.test''),
         (1, ''b'', mkFile ''b3.test''), (1, ''b'', mkDir ''d''),
         (0, ''.'', mkDir ''c''),
         (1, ''c'', mkFile ''c1.test''), (1, ''c'', mkFile ''c2.test'')]" and e: "err = None"
    unfolding displayed_fsA_Level2 by simp_all
  have n: "New (Suc (nat 2)) fsA ''.'' ([] @ [Level 2]) = New 3 fsA ''.'' [Level 2]"
    by (simp add: numeral_3_eq_3)
  from t(1) have tfs: "tfs = \<lparr>fsys = Some fsA,
             tree = [''.'', teeConnector @ '' a1.test'', teeConnector @ '' a2.test'',
                     teeConnector @ '' a3.test'', teeConnector @ '' b'',
                     pipePrefix @ teeConnector @ '' b1.test'',
                     pipePrefix @ teeConnector @ '' b2.test'',
                     pipePrefix @ teeConnector @ '' b3.test'',
                     pipePrefix @ elbowConnector @ '' d'',
                     elbowConnector @ '' c'',
                     spacePrefix @ teeConnector @ '' c1.test'',
                     spacePrefix @ elbowConnector @ '' c2.test''],
             pathPrefix = ''.'', NDirs = 3, NFiles = 8, hidden = False, dirOnly = False,
             fullPathPrefix = False, level = 2\<rparr>"
    unfolding n New_fsA_Level2 by simp
  have 1: "\<exists>tfs. New 3 fsA ''.'' [Level 2] = Some (tfs, None) \<and>
      tree tfs = [''.'', teeConnector @ '' a1.test'', teeConnector @ '' a2.test'',
                  teeConnector @ '' a3.test'', teeConnector @ '' b'',
                  pipePrefix @ teeConnector @ '' b1.test'',
                  pipePrefix @ teeConnector @ '' b2.test'',
                  pipePrefix @ teeConnector @ '' b3.test'',
                  pipePrefix @ elbowConnector @ '' d'',
                  elbowConnector @ '' c'',
                  spacePrefix @ teeConnector @ '' c1.test'',
                  spacePrefix @ elbowConnector @ '' c2.test''] \<and>
      NDirs tfs = 3 \<and> NFiles tfs = 8 \<and>
      NDirs tfs = count_dirs
        [(0, ''.'', mkFile ''a1.test''), (0, ''.'', mkFile ''a2.test''),
         (0, ''.'', mkFile ''a3.test''), (0, ''.'', mkDir ''b''),
         (1, ''b'', mkFile ''b1.test''), (1, ''b'', mkFile ''b2.test''),
         (1, ''b'', mkFile ''b3.test''), (1, ''b'', mkDir ''d''),
         (0, ''.'', mkDir ''c''),
         (1, ''c'', mkFile ''c1.test''), (1, ''c'', mkFile ''c2.test'')]"
    using t(3) unfolding i New_fsA_Level2 tfs by simp
  have 2: "fsA ''b/d'' = Inr [mkFile ''d1.test'']" by (simp add: fsA_def)
  have 3: "\<exists>tfs. New 2 fsA ''.'' [Level 1] = Some (tfs, None) \<and>
      tree tfs = [''.'', teeConnector @ '' a1.test'', teeConnector @ '' a2.test'',
                  teeConnector @ '' a3.test'', teeConnector @ '' b'', elbowConnector @ '' c''] \<and>
      NDirs tfs = 2 \<and> NFiles tfs = 3"
    unfolding New_fsA_Level1 by simp
  from level_limit [where l = 0 and t = zeroTreeFS, THEN conjunct2, THEN conjunct2, THEN conjunct2,
      THEN conjunct2, THEN conjunct2, THEN conjunct1]
  have 4: "Level 0 zeroTreeFS = zeroTreeFS" by simp
  from level_limit [where l = "- 1" and t = zeroTreeFS, THEN conjunct2, THEN conjunct2, THEN conjunct2,
      THEN conjunct2, THEN conjunct2, THEN conjunct1]
  have 5: "Level (- 1) zeroTreeFS = zeroTreeFS" by simp
  let ?s = "New_state fsA ''.'' [Level 2]"
  let ?bs = "[mkFile ''b1.test'', mkFile ''b2.test'', mkFile ''b3.test'', mkDir ''d'']"
  have s: "?s = \<lparr>fsys = Some fsA, tree = [''.''], pathPrefix = ''.'', NDirs = 0, NFiles = 0,
      hidden = False, dirOnly = False, fullPathPrefix = False, level = 2\<rparr>"
    by (simp add: New_state_def Level_def)
  have 6: "fsA ''b'' = Inr ?bs" by (simp add: fsA_def)
  have h: "0 < level ?s \<and> 1 + 1 = level ?s \<and> fsys ?s = Some fsA \<and> fsA ''b'' = Inr ?bs"
    by (simp add: s fsA_def)
  note b = level_limit [where t = ?s and lvl = 1 and fs = fsA and name = "''b''" and listing = ?bs
      and n = 0 and prefix = pipePrefix,
      THEN conjunct2, THEN conjunct2, THEN conjunct2, THEN conjunct2, THEN conjunct2,
      THEN conjunct2, THEN conjunct2, THEN conjunct1, THEN mp, OF h]
  from b obtain t' where t': "treeFSWithPrefix (Suc (Suc 0)) ?s ''b'' pipePrefix 1 = Some (t', None) \<and>
         same_options ?s t' \<and> tree t' = tree ?s @ added ?s t' \<and>
         list_all2 (shows_entry ?s) (added ?s t') (map (\<lambda>e. (1, ''b'', e)) (filter (allow ?s) ?bs)) \<and>
         NDirs t' = NDirs ?s + int (length (filter IsDir (filter (allow ?s) ?bs))) \<and>
         NFiles t' = NFiles ?s + int (length (filter (\<lambda>e. \<not> IsDir e) (filter (allow ?s) ?bs)))"
    by (rule exE)
  have fa: "filter (allow ?s) ?bs = ?bs"
    by (simp add: s allow_def mkFile_def mkDir_def strings_HasPrefix_def)
  from t' [THEN conjunct1] have b1: "treeFSWithPrefix 2 ?s ''b'' pipePrefix 1 = Some (t', None)"
    by (simp only: numeral_2_eq_2)
  from t' [THEN conjunct2, THEN conjunct2, THEN conjunct2, THEN conjunct1]
  have "length (added ?s t') = length (map (\<lambda>e. (1::int, ''b'', e)) (filter (allow ?s) ?bs))"
    by (rule list_all2_lengthD)
  then have b2: "length (added ?s t') = 4" by (simp only: fa) simp
  from t' [THEN conjunct2, THEN conjunct2, THEN conjunct2, THEN conjunct2, THEN conjunct1]
  have b3: "NDirs t' = 1" by (simp only: fa) (simp add: s mkFile_def mkDir_def)
  from t' [THEN conjunct2, THEN conjunct2, THEN conjunct2, THEN conjunct2, THEN conjunct2]
  have b4: "NFiles t' = 3" by (simp only: fa) (simp add: s mkFile_def mkDir_def)
  have 7: "\<exists>t'. treeFSWithPrefix 2 ?s ''b'' pipePrefix 1 = Some (t', None) \<and>
      length (added ?s t') = 4 \<and> NDirs t' = 1 \<and> NFiles t' = 3"
    by (rule exI [where x = t']) (rule conjI [OF b1 conjI [OF b2 conjI [OF b3 b4]]])
  have lev: "level (New_state fsA ''.'' []) \<le> 0" by (simp add: New_state_def)
  note c = level_limit [where opts = "[]" and fs = fsA and root = "''.''" and l = 2 and fuel = 3,
      THEN conjunct2, THEN conjunct2, THEN conjunct2, THEN conjunct2, THEN conjunct2,
      THEN conjunct2, THEN conjunct2, THEN conjunct2, THEN conjunct2, THEN conjunct1, THEN mp,
      OF conjI [OF p conjI [OF lev conjI [OF l New_fsA]]]]
  from c obtain its2 tfs2 where
    c1: "displayed 3 (New_state fsA ''.'' []) fsA (walk_root ''.'') 0 = Some (its2, None)" and
    c2: "New 3 fsA ''.'' ([] @ [Level 2]) = Some (tfs2, None)" and
    c3: "length (tree tfs2) = 1 + length (filter (\<lambda>it. item_depth it < 2) its2)"
    by (elim exE conjE)
  from c1 have i2: "its2 = [(0, ''.'', mkFile ''a1.test''), (0, ''.'', mkFile ''a2.test''),
            (0, ''.'', mkFile ''a3.test''), (0, ''.'', mkDir ''b''),
            (1, ''b'', mkFile ''b1.test''), (1, ''b'', mkFile ''b2.test''),
            (1, ''b'', mkFile ''b3.test''), (1, ''b'', mkDir ''d''),
            (2, ''b/d'', mkFile ''d1.test''), (0, ''.'', mkDir ''c''),
            (1, ''c'', mkFile ''c1.test''), (1, ''c'', mkFile ''c2.test'')]"
    unfolding displayed_fsA by simp
  have c4: "length its2 = 12" unfolding i2 by simp
  have c5: "length (filter (\<lambda>it. item_depth it < 2) its2) = 11"
    unfolding i2 by (simp add: item_depth_def)
  have 8: "\<exists>its tfs. displayed 3 (New_state fsA ''.'' []) fsA (walk_root ''.'') 0 = Some (its, None) \<and>
      length its = 12 \<and> New 3 fsA ''.'' ([] @ [Level 2]) = Some (tfs, None) \<and>
      length (tree tfs) = 1 + length (filter (\<lambda>it. item_depth it < 2) its) \<and>
      length (filter (\<lambda>it. item_depth it < 2) its) = 11"
    by (rule exI [where x = its2], rule exI [where x = tfs2])
       (rule conjI [OF c1 conjI [OF c4 conjI [OF c2 conjI [OF c3 c5]]]])
  show ?thesis
    by (rule conjI [OF 1 conjI [OF 2 conjI [OF 3 conjI [OF 4 conjI [OF 5 conjI [OF 6 conjI [OF 7 8]]]]]]])
qed

subsection \<open>C4: listing errors\<close>

text \<open>
  C4, as the code has it. For a render with the package's options: when the directory the
  walk starts from cannot be listed, \<^verbatim>\<open>New\<close> returns that error beside the root line
  alone and both counts 0. At every depth, when a directory that the filter lets through
  cannot be listed, the loop ends there and returns that error beside the state with the
  line and the count of that directory; no later entry is looked at. When the traversal
  \<open>displayed\<close> ends with an error after the entries \<open>its\<close>, that error is the one the file
  system gave for the root, if \<open>its\<close> is empty, and else for the directory that is the
  last of \<open>its\<close>; \<^verbatim>\<open>New\<close> returns that error, unchanged, beside the root line, one line
  for each entry of \<open>its\<close> and their counts, and \<^verbatim>\<open>Tree\<close>, \<^verbatim>\<open>Graph\<close> and \<^verbatim>\<open>Meta\<close>
  return it with the empty string. Every error that \<^verbatim>\<open>New\<close> returns arises so, and is the
  listing error of a directory the walk visits. When \<^verbatim>\<open>New\<close> returns no error, every
  directory the walk visits was listed. On a file system that is at most \<open>d\<close> deep, a
  render within \<open>d\<close> nested calls returns an error as soon as one directory the walk visits
  cannot be listed. When the renders of the first tuples succeed and the next one fails,
  \<^verbatim>\<open>NewMulti\<close> returns that error beside the aggregate of the renders before it, whatever
  tuples follow; they are not rendered.
\<close>

theorem ListError_propagates:
  "((\<forall>opt \<in> set opts. package_opt opt) \<and> fs (walk_root root) = Inl err \<longrightarrow>
      New (Suc n) fs root opts = Some (New_state fs root opts, Some err) \<and>
      tree (New_state fs root opts) = [root] \<and>
      NDirs (New_state fs root opts) = 0 \<and> NFiles (New_state fs root opts) = 0) \<and>
   (allow t e \<and> IsDir e \<and> fsys t = Some fs \<and> fs (path_Join name (Name e)) = Inl err \<and>
    \<not> (0 < level t \<and> lvl + 1 = level t) \<longrightarrow>
      entries_loop (treeFSWithPrefix (Suc n)) t name prefix lvl num i (e # es) =
        Some (append_tfs (t\<lparr>NDirs := NDirs t + 1\<rparr>) prefix
                (if i = num - 1 then elbowConnector else teeConnector) name (Name e), Some err)) \<and>
   ((\<forall>opt \<in> set opts. package_opt opt) \<and>
    displayed fuel (New_state fs root opts) fs (walk_root root) 0 = Some (its, Some err) \<longrightarrow>
      failed_at fs (walk_root root) its err \<and>
      (\<exists>tfs. New fuel fs root opts = Some (tfs, Some err) \<and>
         hd (tree tfs) = root \<and> length (tree tfs) = 1 + length its \<and>
         list_all2 (shows_entry (New_state fs root opts)) (tl (tree tfs)) its \<and>
         NDirs tfs = count_dirs its \<and> NFiles tfs = count_files its) \<and>
      Tree fuel fs root opts = Some ([], Some err) \<and>
      Graph_fn fuel fs root opts = Some ([], Some err) \<and>
      Meta_fn fuel fs root opts = Some ([], Some err)) \<and>
   ((\<forall>opt \<in> set opts. package_opt opt) \<and> New fuel fs root opts = Some (tfs, Some err) \<longrightarrow>
      (\<exists>its. displayed fuel (New_state fs root opts) fs (walk_root root) 0 = Some (its, Some err) \<and>
         failed_at fs (walk_root root) its err \<and> length (tree tfs) = 1 + length its \<and>
         list_all2 (shows_entry (New_state fs root opts)) (tl (tree tfs)) its \<and>
         NDirs tfs = count_dirs its \<and> NFiles tfs = count_files its) \<and>
      (\<exists>p. visits (New_state fs root opts) fs (walk_root root) 0 p \<and> fs p = Inl err) \<and>
      Tree fuel fs root opts = Some ([], Some err) \<and>
      Graph_fn fuel fs root opts = Some ([], Some err) \<and>
      Meta_fn fuel fs root opts = Some ([], Some err)) \<and>
   ((\<forall>opt \<in> set opts. package_opt opt) \<and> New fuel fs root opts = Some (tfs, None) \<and>
    visits (New_state fs root opts) fs (walk_root root) 0 p \<longrightarrow> (\<exists>es. fs p = Inr es)) \<and>
   ((\<forall>opt \<in> set opts. package_opt opt) \<and>
    deep d (New_state fs root opts) fs (walk_root root) 0 \<and>
    visits (New_state fs root opts) fs (walk_root root) 0 p \<and> fs p = Inl err \<longrightarrow>
      (\<exists>tfs err'. New d fs root opts = Some (tfs, Some err') \<and>
         (\<exists>q. visits (New_state fs root opts) fs (walk_root root) 0 q \<and> fs q = Inl err') \<and>
         Tree d fs root opts = Some ([], Some err'))) \<and>
   (list_all2 (\<lambda>a r. New fuel (Fsys a) (ArgName a) (Opts a) = Some (r, None)) pre_args rs \<and>
    New fuel (Fsys a) (ArgName a) (Opts a) = Some (tf, Some err) \<longrightarrow>
      NewMulti fuel (pre_args @ a # post_args) =
        Some (zeroTreeFS\<lparr>tree := concat (map tree rs), NDirs := sum_list (map NDirs rs),
                         NFiles := sum_list (map NFiles rs)\<rparr>, Some err))"
proof -
  have 1: "(\<forall>opt \<in> set opts. package_opt opt) \<and> fs (walk_root root) = Inl err \<longrightarrow>
      New (Suc n) fs root opts = Some (New_state fs root opts, Some err) \<and>
      tree (New_state fs root opts) = [root] \<and>
      NDirs (New_state fs root opts) = 0 \<and> NFiles (New_state fs root opts) = 0"
    using walk_root_failure [of opts fs root err n] New_state_fields [of opts fs root] by blast
  have 2: "allow t e \<and> IsDir e \<and> fsys t = Some fs \<and> fs (path_Join name (Name e)) = Inl err \<and>
    \<not> (0 < level t \<and> lvl + 1 = level t) \<longrightarrow>
      entries_loop (treeFSWithPrefix (Suc n)) t name prefix lvl num i (e # es) =
        Some (append_tfs (t\<lparr>NDirs := NDirs t + 1\<rparr>) prefix
                (if i = num - 1 then elbowConnector else teeConnector) name (Name e), Some err)"
    using entries_loop_abort [where t = t and e = e and fs = fs and name = name and err = err
        and lvl = lvl and n = n and prefix = prefix and num = num and i = i and es = es]
    by blast
  have 3: "(\<forall>opt \<in> set opts. package_opt opt) \<and>
    displayed fuel (New_state fs root opts) fs (walk_root root) 0 = Some (its, Some err) \<longrightarrow>
      failed_at fs (walk_root root) its err \<and>
      (\<exists>tfs. New fuel fs root opts = Some (tfs, Some err) \<and>
         hd (tree tfs) = root \<and> length (tree tfs) = 1 + length its \<and>
         list_all2 (shows_entry (New_state fs root opts)) (tl (tree tfs)) its \<and>
         NDirs tfs = count_dirs its \<and> NFiles tfs = count_files its) \<and>
      Tree fuel fs root opts = Some ([], Some err) \<and>
      Graph_fn fuel fs root opts = Some ([], Some err) \<and>
      Meta_fn fuel fs root opts = Some ([], Some err)"
    using New_failure_total [of opts fuel fs root its err] by blast
  have 4: "(\<forall>opt \<in> set opts. package_opt opt) \<and> New fuel fs root opts = Some (tfs, Some err) \<longrightarrow>
      (\<exists>its. displayed fuel (New_state fs root opts) fs (walk_root root) 0 = Some (its, Some err) \<and>
         failed_at fs (walk_root root) its err \<and> length (tree tfs) = 1 + length its \<and>
         list_all2 (shows_entry (New_state fs root opts)) (tl (tree tfs)) its \<and>
         NDirs tfs = count_dirs its \<and> NFiles tfs = count_files its) \<and>
      (\<exists>p. visits (New_state fs root opts) fs (walk_root root) 0 p \<and> fs p = Inl err) \<and>
      Tree fuel fs root opts = Some ([], Some err) \<and>
      Graph_fn fuel fs root opts = Some ([], Some err) \<and>
      Meta_fn fuel fs root opts = Some ([], Some err)"
    using New_failure_source [of opts fuel fs root tfs err] by blast
  have 5: "(\<forall>opt \<in> set opts. package_opt opt) \<and> New fuel fs root opts = Some (tfs, None) \<and>
    visits (New_state fs root opts) fs (walk_root root) 0 p \<longrightarrow> (\<exists>es. fs p = Inr es)"
    using New_success_lists_all [of opts fuel fs root tfs p] by blast
  have 6: "(\<forall>opt \<in> set opts. package_opt opt) \<and>
    deep d (New_state fs root opts) fs (walk_root root) 0 \<and>
    visits (New_state fs root opts) fs (walk_root root) 0 p \<and> fs p = Inl err \<longrightarrow>
      (\<exists>tfs err'. New d fs root opts = Some (tfs, Some err') \<and>
         (\<exists>q. visits (New_state fs root opts) fs (walk_root root) 0 q \<and> fs q = Inl err') \<and>
         Tree d fs root opts = Some ([], Some err'))"
    using New_deep_failure [of opts d fs root p err] by blast
  have 7: "list_all2 (\<lambda>a r. New fuel (Fsys a) (ArgName a) (Opts a) = Some (r, None)) pre_args rs \<and>
    New fuel (Fsys a) (ArgName a) (Opts a) = Some (tf, Some err) \<longrightarrow>
      NewMulti fuel (pre_args @ a # post_args) =
        Some (zeroTreeFS\<lparr>tree := concat (map tree rs), NDirs := sum_list (map NDirs rs),
                         NFiles := sum_list (map NFiles rs)\<rparr>, Some err)"
    using NewMulti_first_failure [of fuel pre_args rs a tf err post_args] by blast
  from 1 2 3 4 5 6 7 show ?thesis by (intro conjI)
qed

theorem ListError_propagates_witness:
  "fsErr2 ''b/d'' = Inl (ListError ''b/d'') \<and>
   (\<exists>tfs. New 3 fsErr2 ''.'' [] = Some (tfs, Some (ListError ''b/d'')) \<and>
      length (tree tfs) = 5 \<and> NDirs tfs = 2 \<and> NFiles tfs = 2 \<and>
      list_all2 (shows_entry (New_state fsErr2 ''.'' [])) (tl (tree tfs))
        [(0, ''.'', mkFile ''a''), (0, ''.'', mkDir ''b''), (1, ''b'', mkFile ''b1''),
         (1, ''b'', mkDir ''d'')]) \<and>
   Tree 3 fsErr2 ''.'' [] = Some ([], Some (ListError ''b/d'')) \<and>
   Graph_fn 3 fsErr2 ''.'' [] = Some ([], Some (ListError ''b/d'')) \<and>
   Meta_fn 3 fsErr2 ''.'' [] = Some ([], Some (ListError ''b/d'')) \<and>
   NewMulti 3 [\<lparr>Fsys = fsB, ArgName = ''.'', Opts = [DirOnly]\<rparr>,
               \<lparr>Fsys = fsErr2, ArgName = ''.'', Opts = []\<rparr>,
               \<lparr>Fsys = fsA, ArgName = ''.'', Opts = []\<rparr>] =
     Some (zeroTreeFS\<lparr>tree := [''.'', teeConnector @ '' b'', pipePrefix @ elbowConnector @ '' d''],
                      NDirs := 2, NFiles := 0\<rparr>, Some (ListError ''b/d'')) \<and>
   deep 3 (New_state fsErr2 ''.'' []) fsErr2 (walk_root ''.'') 0 \<and>
   visits (New_state fsErr2 ''.'' []) fsErr2 (walk_root ''.'') 0 ''b/d'' \<and>
   (\<exists>tfs err'. New 3 fsErr2 ''.'' [] = Some (tfs, Some err') \<and>
      (\<exists>q. visits (New_state fsErr2 ''.'' []) fsErr2 (walk_root ''.'') 0 q \<and> fsErr2 q = Inl err') \<and>
      Tree 3 fsErr2 ''.'' [] = Some ([], Some err'))"
proof -
  let ?its = "[(0::int, ''.'', mkFile ''a''), (0, ''.'', mkDir ''b''), (1, ''b'', mkFile ''b1''),
         (1, ''b'', mkDir ''d'')]"
  let ?tB = "\<lparr>fsys = Some fsB,
             tree = [''.'', teeConnector @ '' b'', pipePrefix @ elbowConnector @ '' d''],
             pathPrefix = ''.'', NDirs = 2, NFiles = 0, hidden = False, dirOnly = True,
             fullPathPrefix = False, level = 0\<rparr>"
  have p: "\<forall>opt \<in> set ([] :: Opt list). package_opt opt" by simp
  note r = ListError_propagates [where opts = "[]" and fuel = 3 and fs = fsErr2 and root = "''.''"
      and its = ?its and err = "ListError ''b/d''",
      THEN conjunct2, THEN conjunct2, THEN conjunct1, THEN mp, OF conjI, OF p displayed_fsErr2]
  note ex = r [THEN conjunct2, THEN conjunct1]
  from ex obtain tfs where t: "New 3 fsErr2 ''.'' [] = Some (tfs, Some (ListError ''b/d'')) \<and>
         hd (tree tfs) = ''.'' \<and> length (tree tfs) = 1 + length ?its \<and>
         list_all2 (shows_entry (New_state fsErr2 ''.'' [])) (tl (tree tfs)) ?its \<and>
         NDirs tfs = count_dirs ?its \<and> NFiles tfs = count_files ?its" ..
  note t1 = t [THEN conjunct1]
  note t3 = t [THEN conjunct2, THEN conjunct2, THEN conjunct1]
  note t4 = t [THEN conjunct2, THEN conjunct2, THEN conjunct2, THEN conjunct1]
  note t5 = t [THEN conjunct2, THEN conjunct2, THEN conjunct2, THEN conjunct2, THEN conjunct1]
  note t6 = t [THEN conjunct2, THEN conjunct2, THEN conjunct2, THEN conjunct2, THEN conjunct2]
  have c: "count_dirs ?its = 2" "count_files ?its = 2"
    by (simp_all add: count_dirs_def count_files_def item_entry_def mkFile_def mkDir_def)
  have 1: "fsErr2 ''b/d'' = Inl (ListError ''b/d'')"
    by (simp add: fsErr2_def)
  from t3 have len: "length (tree tfs) = 5" by simp
  from t5 c have nd: "NDirs tfs = 2" by (simp only:)
  from t6 c have nf: "NFiles tfs = 2" by (simp only:)
  have "New 3 fsErr2 ''.'' [] = Some (tfs, Some (ListError ''b/d'')) \<and>
      length (tree tfs) = 5 \<and> NDirs tfs = 2 \<and> NFiles tfs = 2 \<and>
      list_all2 (shows_entry (New_state fsErr2 ''.'' [])) (tl (tree tfs)) ?its"
    by (rule conjI [OF t1 conjI [OF len conjI [OF nd conjI [OF nf t4]]]])
  note cj = this
  have 2: "\<exists>tfs. New 3 fsErr2 ''.'' [] = Some (tfs, Some (ListError ''b/d'')) \<and>
      length (tree tfs) = 5 \<and> NDirs tfs = 2 \<and> NFiles tfs = 2 \<and>
      list_all2 (shows_entry (New_state fsErr2 ''.'' [])) (tl (tree tfs)) ?its"
    by (rule exI [where x = tfs]) (rule cj)
  note 3 = r [THEN conjunct2, THEN conjunct2, THEN conjunct1]
  note 4 = r [THEN conjunct2, THEN conjunct2, THEN conjunct2, THEN conjunct1]
  note 5 = r [THEN conjunct2, THEN conjunct2, THEN conjunct2, THEN conjunct2]
  have l: "list_all2 (\<lambda>a r. New 3 (Fsys a) (ArgName a) (Opts a) = Some (r, None))
      [\<lparr>Fsys = fsB, ArgName = ''.'', Opts = [DirOnly]\<rparr>] [?tB]"
    using New_fsB_DirOnly by simp
  have f: "New 3 (Fsys \<lparr>Fsys = fsErr2, ArgName = ''.'', Opts = []\<rparr>)
      (ArgName \<lparr>Fsys = fsErr2, ArgName = ''.'', Opts = []\<rparr>)
      (Opts \<lparr>Fsys = fsErr2, ArgName = ''.'', Opts = []\<rparr>) =
      Some (\<lparr>fsys = Some fsErr2,
             tree = [''.'', teeConnector @ '' a'', teeConnector @ '' b'',
                     pipePrefix @ teeConnector @ '' b1'', pipePrefix @ teeConnector @ '' d''],
             pathPrefix = ''.'', NDirs = 2, NFiles = 2, hidden = False, dirOnly = False,
             fullPathPrefix = False, level = 0\<rparr>, Some (ListError ''b/d''))"
    using New_fsErr2 by simp
  from ListError_propagates [where fuel = 3 and
      pre_args = "[\<lparr>Fsys = fsB, ArgName = ''.'', Opts = [DirOnly]\<rparr>]" and rs = "[?tB]" and
      a = "\<lparr>Fsys = fsErr2, ArgName = ''.'', Opts = []\<rparr>" and err = "ListError ''b/d''" and
      post_args = "[\<lparr>Fsys = fsA, ArgName = ''.'', Opts = []\<rparr>]",
      THEN conjunct2, THEN conjunct2, THEN conjunct2, THEN conjunct2, THEN conjunct2, THEN conjunct2,
      THEN mp, OF conjI, OF l f]
  have 6: "NewMulti 3 [\<lparr>Fsys = fsB, ArgName = ''.'', Opts = [DirOnly]\<rparr>,
               \<lparr>Fsys = fsErr2, ArgName = ''.'', Opts = []\<rparr>,
               \<lparr>Fsys = fsA, ArgName = ''.'', Opts = []\<rparr>] =
     Some (zeroTreeFS\<lparr>tree := [''.'', teeConnector @ '' b'', pipePrefix @ elbowConnector @ '' d''],
                      NDirs := 2, NFiles := 0\<rparr>, Some (ListError ''b/d''))"
    by simp
  note 7 = ListError_propagates [where opts = "[]" and d = 3 and fs = fsErr2 and root = "''.''"
      and p = "''b/d''" and err = "ListError ''b/d''",
      THEN conjunct2, THEN conjunct2, THEN conjunct2, THEN conjunct2, THEN conjunct2, THEN conjunct1,
      THEN mp, OF conjI [OF p conjI [OF deep_fsErr2 conjI [OF visits_fsErr2 1]]]]
  show ?thesis
    by (rule conjI [OF 1 conjI [OF 2 conjI [OF 3 conjI [OF 4 conjI [OF 5 conjI [OF 6
          conjI [OF deep_fsErr2 conjI [OF visits_fsErr2 7]]]]]]]])
qed

text \<open>
  The claim fails on the code where it says that no partial report is produced: beside
  the error \<^verbatim>\<open>New\<close> returns the report as far as it was built. On the root \<^verbatim>\<open>a\<close>, \<^verbatim>\<open>b\<close>, \<^verbatim>\<open>c\<close>
  whose directory \<^verbatim>\<open>b\<close> cannot be listed it returns three lines and the counts 1 and 1
  with the error of \<^verbatim>\<open>b\<close>; \<^verbatim>\<open>NewMulti\<close>, given that render after one that succeeds,
  returns the lines and the counts of the first with the same error.
\<close>

theorem New_returns_partial_report:
  "fsErr ''b'' = Inl (ListError ''b'') \<and>
   New 2 fsErr ''.'' [] =
     Some (\<lparr>fsys = Some fsErr,
             tree = [''.'', teeConnector @ '' a'', teeConnector @ '' b''],
             pathPrefix = ''.'', NDirs = 1, NFiles = 1, hidden = False, dirOnly = False,
             fullPathPrefix = False, level = 0\<rparr>, Some (ListError ''b'')) \<and>
   NewMulti 2 [\<lparr>Fsys = fsDots, ArgName = ''.'', Opts = []\<rparr>,
               \<lparr>Fsys = fsErr, ArgName = ''.'', Opts = []\<rparr>,
               \<lparr>Fsys = fsA, ArgName = ''.'', Opts = []\<rparr>] =
     Some (\<lparr>fsys = None,
             tree = [''.'', teeConnector @ '' ...'', elbowConnector @ '' x''],
             pathPrefix = [], NDirs = 0, NFiles = 2, hidden = False, dirOnly = False,
             fullPathPrefix = False, level = 0\<rparr>, Some (ListError ''b''))"
proof -
  have "New 2 fsDots ''.'' [] =
     Some (\<lparr>fsys = Some fsDots,
             tree = [''.'', teeConnector @ '' ...'', elbowConnector @ '' x''],
             pathPrefix = ''.'', NDirs = 0, NFiles = 2, hidden = False, dirOnly = False,
             fullPathPrefix = False, level = 0\<rparr>, None)"
    by (rule New_mono [OF New_fsDots]) simp
  then show ?thesis
    by (simp add: NewMulti_def New_fsErr zeroTreeFS_def fsErr_def)
qed

subsection \<open>C5: the aggregate of several trees\<close>

text \<open>
  C5. When every tuple renders without an error, to the reports \<open>rs\<close> in the order of the
  tuples, \<^verbatim>\<open>NewMulti\<close> returns without an error a report whose lines are the lines of
  the reports one after another, and whose counts are the sums of theirs.
\<close>

theorem NewMulti_concat_sums:
  assumes "list_all2 (\<lambda>a r. New fuel (Fsys a) (ArgName a) (Opts a) = Some (r, None)) args rs"
  shows "\<exists>tfs. NewMulti fuel args = Some (tfs, None) \<and> tree tfs = concat (map tree rs) \<and>
           NDirs tfs = sum_list (map NDirs rs) \<and> NFiles tfs = sum_list (map NFiles rs)"
  unfolding NewMulti_def NewMulti_loop_all_succeed [OF assms]
  by (simp add: zeroTreeFS_def)

theorem NewMulti_concat_sums_witness:
  "\<exists>tfs. NewMulti 3 [\<lparr>Fsys = fsB, ArgName = ''.'', Opts = [DirOnly]\<rparr>,
                       \<lparr>Fsys = fsDots, ArgName = ''.'', Opts = []\<rparr>] = Some (tfs, None) \<and>
     tree tfs = [''.'', teeConnector @ '' b'', pipePrefix @ elbowConnector @ '' d'',
                 ''.'', teeConnector @ '' ...'', elbowConnector @ '' x''] \<and>
     NDirs tfs = 2 \<and> NFiles tfs = 2"
proof -
  let ?tB = "\<lparr>fsys = Some fsB,
             tree = [''.'', teeConnector @ '' b'', pipePrefix @ elbowConnector @ '' d''],
             pathPrefix = ''.'', NDirs = 2, NFiles = 0, hidden = False, dirOnly = True,
             fullPathPrefix = False, level = 0\<rparr>"
  let ?tD = "\<lparr>fsys = Some fsDots,
             tree = [''.'', teeConnector @ '' ...'', elbowConnector @ '' x''],
             pathPrefix = ''.'', NDirs = 0, NFiles = 2, hidden = False, dirOnly = False,
             fullPathPrefix = False, level = 0\<rparr>"
  have "New 3 fsDots ''.'' [] = Some (?tD, None)"
    by (rule New_mono [OF New_fsDots]) simp
  with New_fsB_DirOnly
  have "list_all2 (\<lambda>a r. New 3 (Fsys a) (ArgName a) (Opts a) = Some (r, None))
          [\<lparr>Fsys = fsB, ArgName = ''.'', Opts = [DirOnly]\<rparr>, \<lparr>Fsys = fsDots, ArgName = ''.'', Opts = []\<rparr>]
          [?tB, ?tD]"
    by simp
  from NewMulti_concat_sums [OF this] show ?thesis by simp
qed

subsection \<open>C6: the summary line and the full report\<close>

text \<open>
  C6 fails on the code for the report that \<^verbatim>\<open>NewMulti\<close> returns: the aggregate takes the
  lines and the counts of the renders and none of their options, so its \<open>dirOnly\<close> is
  never set. The render of \<^verbatim>\<open>MapFS{"b/d/x.txt", "z.txt"}\<close> with \<^verbatim>\<open>DirOnly\<close> has the summary
  \<^verbatim>\<open>2 directories\<close>; the aggregate of that one render, with the same lines and counts,
  has the summary \<^verbatim>\<open>2 directories, 0 files\<close>, and its full report ends with it.
\<close>

theorem NewMulti_DirOnly_keeps_file_clause:
  "New 3 fsB ''.'' [DirOnly] =
     Some (\<lparr>fsys = Some fsB,
             tree = [''.'', teeConnector @ '' b'', pipePrefix @ elbowConnector @ '' d''],
             pathPrefix = ''.'', NDirs = 2, NFiles = 0, hidden = False, dirOnly = True,
             fullPathPrefix = False, level = 0\<rparr>, None) \<and>
   Meta \<lparr>fsys = Some fsB,
         tree = [''.'', teeConnector @ '' b'', pipePrefix @ elbowConnector @ '' d''],
         pathPrefix = ''.'', NDirs = 2, NFiles = 0, hidden = False, dirOnly = True,
         fullPathPrefix = False, level = 0\<rparr> = ''2 directories'' \<and>
   NewMulti 3 [\<lparr>Fsys = fsB, ArgName = ''.'', Opts = [DirOnly]\<rparr>] =
     Some (\<lparr>fsys = None,
             tree = [''.'', teeConnector @ '' b'', pipePrefix @ elbowConnector @ '' d''],
             pathPrefix = [], NDirs = 2, NFiles = 0, hidden = False, dirOnly = False,
             fullPathPrefix = False, level = 0\<rparr>, None) \<and>
   Meta \<lparr>fsys = None,
         tree = [''.'', teeConnector @ '' b'', pipePrefix @ elbowConnector @ '' d''],
         pathPrefix = [], NDirs = 2, NFiles = 0, hidden = False, dirOnly = False,
         fullPathPrefix = False, level = 0\<rparr> = ''2 directories, 0 files'' \<and>
   String \<lparr>fsys = None,
           tree = [''.'', teeConnector @ '' b'', pipePrefix @ elbowConnector @ '' d''],
           pathPrefix = [], NDirs = 2, NFiles = 0, hidden = False, dirOnly = False,
           fullPathPrefix = False, level = 0\<rparr> =
     ''.'' @ [CHR 0x0A] @ teeConnector @ '' b'' @ [CHR 0x0A] @
     pipePrefix @ elbowConnector @ '' d'' @ [CHR 0x0A, CHR 0x0A] @ ''2 directories, 0 files''"
  by (simp add: New_fsB_DirOnly NewMulti_def zeroTreeFS_def Meta_def String_def Graph_def
        itoa_def natToDec.simps)

subsection \<open>C7: one line and one count for each displayed entry\<close>

text \<open>
  C7. A render with the package's options that returns without an error has gone through
  the entries \<open>its\<close> of the traversal \<open>displayed\<close>, the entries that the filter lets
  through, in the order of the walk. Its tree is the root line and then one line for each
  of them, in that order, each with the displayed name of its entry; \<open>NDirs\<close> is the
  number of the directories among them and \<open>NFiles\<close> the number of the others. So the two
  counts add up to the number of lines after the first and neither is negative, whether
  or not the filter excluded entries of the listings. The same holds for a call of the walk
  from any directory, depth and state, for the lines and counts it adds. The loop gives a
  displayed file one line and one more in \<open>NFiles\<close>, and a displayed directory one line
  and one more in \<open>NDirs\<close>, before it descends into it.
\<close>

theorem New_counts_lines:
  assumes "\<forall>opt \<in> set opts. package_opt opt" and "New fuel fs name opts = Some (tfs, None)"
  shows "(\<exists>its. displayed fuel (New_state fs name opts) fs (walk_root name) 0 = Some (its, None) \<and>
            length (tree tfs) = 1 + length its \<and>
            list_all2 (shows_entry (New_state fs name opts)) (tl (tree tfs)) its \<and>
            NDirs tfs = int (length (filter (\<lambda>it. IsDir (item_entry it)) its)) \<and>
            NFiles tfs = int (length (filter (\<lambda>it. \<not> IsDir (item_entry it)) its))) \<and>
         NDirs tfs + NFiles tfs = int (length (tree tfs)) - 1 \<and> 0 \<le> NDirs tfs \<and> 0 \<le> NFiles tfs \<and>
         (\<forall>n t nm prefix lvl t'.
            fsys t = Some fs \<and> treeFSWithPrefix n t nm prefix lvl = Some (t', None) \<longrightarrow>
            (\<exists>its. displayed n t fs nm lvl = Some (its, None) \<and>
               tree t' = tree t @ added t t' \<and> list_all2 (shows_entry t) (added t t') its \<and>
               NDirs t' = NDirs t + int (length (filter (\<lambda>it. IsDir (item_entry it)) its)) \<and>
               NFiles t' = NFiles t + int (length (filter (\<lambda>it. \<not> IsDir (item_entry it)) its)))) \<and>
         (\<forall>t p c d n.
            length (tree (append_tfs (t\<lparr>NFiles := NFiles t + 1\<rparr>) p c d n)) = length (tree t) + 1 \<and>
            NFiles (append_tfs (t\<lparr>NFiles := NFiles t + 1\<rparr>) p c d n) = NFiles t + 1 \<and>
            NDirs (append_tfs (t\<lparr>NFiles := NFiles t + 1\<rparr>) p c d n) = NDirs t \<and>
            length (tree (append_tfs (t\<lparr>NDirs := NDirs t + 1\<rparr>) p c d n)) = length (tree t) + 1 \<and>
            NDirs (append_tfs (t\<lparr>NDirs := NDirs t + 1\<rparr>) p c d n) = NDirs t + 1 \<and>
            NFiles (append_tfs (t\<lparr>NDirs := NDirs t + 1\<rparr>) p c d n) = NFiles t)"
proof -
  from New_displayed_conv [OF assms]
  have 1: "\<exists>its. displayed fuel (New_state fs name opts) fs (walk_root name) 0 = Some (its, None) \<and>
            length (tree tfs) = 1 + length its \<and>
            list_all2 (shows_entry (New_state fs name opts)) (tl (tree tfs)) its \<and>
            NDirs tfs = int (length (filter (\<lambda>it. IsDir (item_entry it)) its)) \<and>
            NFiles tfs = int (length (filter (\<lambda>it. \<not> IsDir (item_entry it)) its))"
    by (simp add: count_dirs_def count_files_def)
  from New_counts [OF assms]
  have 2: "NDirs tfs + NFiles tfs = int (length (tree tfs)) - 1" "0 \<le> NDirs tfs" "0 \<le> NFiles tfs"
    by simp_all
  have 3: "\<forall>n t nm prefix lvl t'.
            fsys t = Some fs \<and> treeFSWithPrefix n t nm prefix lvl = Some (t', None) \<longrightarrow>
            (\<exists>its. displayed n t fs nm lvl = Some (its, None) \<and>
               tree t' = tree t @ added t t' \<and> list_all2 (shows_entry t) (added t t') its \<and>
               NDirs t' = NDirs t + int (length (filter (\<lambda>it. IsDir (item_entry it)) its)) \<and>
               NFiles t' = NFiles t + int (length (filter (\<lambda>it. \<not> IsDir (item_entry it)) its)))"
  proof (intro allI impI)
    fix n t nm prefix lvl t'
    assume a: "fsys t = Some fs \<and> treeFSWithPrefix n t nm prefix lvl = Some (t', None)"
    then have f: "fsys t = Some fs" and w: "treeFSWithPrefix n t nm prefix lvl = Some (t', None)"
      by simp_all
    note d = walk_displayed [OF f, of n nm lvl prefix]
    show "\<exists>its. displayed n t fs nm lvl = Some (its, None) \<and>
               tree t' = tree t @ added t t' \<and> list_all2 (shows_entry t) (added t t') its \<and>
               NDirs t' = NDirs t + int (length (filter (\<lambda>it. IsDir (item_entry it)) its)) \<and>
               NFiles t' = NFiles t + int (length (filter (\<lambda>it. \<not> IsDir (item_entry it)) its))"
    proof (cases "displayed n t fs nm lvl")
      case None
      with d w show ?thesis by simp
    next
      case (Some p)
      obtain its e where p: "p = (its, e)" by (cases p)
      from d Some p obtain t1 where "treeFSWithPrefix n t nm prefix lvl = Some (t1, e)"
        "tree t1 = tree t @ added t t1" "list_all2 (shows_entry t) (added t t1) its"
        "NDirs t1 = NDirs t + count_dirs its" "NFiles t1 = NFiles t + count_files its"
        by blast
      with w Some p show ?thesis by (simp add: count_dirs_def count_files_def)
    qed
  qed
  have 4: "\<forall>t p c d n.
            length (tree (append_tfs (t\<lparr>NFiles := NFiles t + 1\<rparr>) p c d n)) = length (tree t) + 1 \<and>
            NFiles (append_tfs (t\<lparr>NFiles := NFiles t + 1\<rparr>) p c d n) = NFiles t + 1 \<and>
            NDirs (append_tfs (t\<lparr>NFiles := NFiles t + 1\<rparr>) p c d n) = NDirs t \<and>
            length (tree (append_tfs (t\<lparr>NDirs := NDirs t + 1\<rparr>) p c d n)) = length (tree t) + 1 \<and>
            NDirs (append_tfs (t\<lparr>NDirs := NDirs t + 1\<rparr>) p c d n) = NDirs t + 1 \<and>
            NFiles (append_tfs (t\<lparr>NDirs := NDirs t + 1\<rparr>) p c d n) = NFiles t"
    by (simp add: append_tfs_def)
  from 1 2 3 4 show ?thesis by (intro conjI)
qed

theorem New_counts_lines_witness:
  "\<exists>tfs. New 3 fsA ''.'' [] = Some (tfs, None) \<and> length (tree tfs) = 13 \<and>
     NDirs tfs = 3 \<and> NFiles tfs = 9 \<and> NDirs tfs + NFiles tfs = int (length (tree tfs)) - 1 \<and>
     list_all2 (shows_entry (New_state fsA ''.'' [])) (tl (tree tfs))
       [(0, ''.'', mkFile ''a1.test''), (0, ''.'', mkFile ''a2.test''),
        (0, ''.'', mkFile ''a3.test''), (0, ''.'', mkDir ''b''),
        (1, ''b'', mkFile ''b1.test''), (1, ''b'', mkFile ''b2.test''),
        (1, ''b'', mkFile ''b3.test''), (1, ''b'', mkDir ''d''),
        (2, ''b/d'', mkFile ''d1.test''), (0, ''.'', mkDir ''c''),
        (1, ''c'', mkFile ''c1.test''), (1, ''c'', mkFile ''c2.test'')]"
proof -
  have p: "\<forall>opt \<in> set ([] :: Opt list). package_opt opt" by simp
  note r = New_counts_lines [OF p New_fsA]
  from r [THEN conjunct1] displayed_fsA
  have l: "list_all2 (shows_entry (New_state fsA ''.'' []))
       (tl (tree (the (map_option fst (New 3 fsA ''.'' [])))))
       [(0, ''.'', mkFile ''a1.test''), (0, ''.'', mkFile ''a2.test''),
        (0, ''.'', mkFile ''a3.test''), (0, ''.'', mkDir ''b''),
        (1, ''b'', mkFile ''b1.test''), (1, ''b'', mkFile ''b2.test''),
        (1, ''b'', mkFile ''b3.test''), (1, ''b'', mkDir ''d''),
        (2, ''b/d'', mkFile ''d1.test''), (0, ''.'', mkDir ''c''),
        (1, ''c'', mkFile ''c1.test''), (1, ''c'', mkFile ''c2.test'')]"
    unfolding New_fsA by (elim exE conjE) simp
  from r [THEN conjunct2, THEN conjunct1]
  have s: "NDirs (the (map_option fst (New 3 fsA ''.'' []))) + NFiles (the (map_option fst (New 3 fsA ''.'' []))) =
           int (length (tree (the (map_option fst (New 3 fsA ''.'' []))))) - 1"
    unfolding New_fsA by simp
  from l s show ?thesis unfolding New_fsA by simp
qed

subsection \<open>C8: full paths\<close>

text \<open>
  C8 fails on the code for root names that refer to a parent directory without the
  substring \<^verbatim>\<open>../\<close>. \<^verbatim>\<open>New\<close> tests for that substring: the root names \<^verbatim>\<open>..\<close> and
  \<^verbatim>\<open>a/..\<close> are not substituted and no name is recorded for them, and on a file system
  that lists \<^verbatim>\<open>.\<close> and refuses \<^verbatim>\<open>..\<close> the render of \<^verbatim>\<open>..\<close> with \<^verbatim>\<open>FullPathPrefix\<close>
  fails with the root line alone. The root name \<^verbatim>\<open>x../y\<close>, which has no such segment,
  is substituted and recorded.
\<close>

theorem root_dotdot_not_substituted:
  "walk_root ''..'' = ''..'' \<and> pathPrefix (New_state fsUp ''..'' [FullPathPrefix]) = [] \<and>
   walk_root ''a/..'' = ''a/..'' \<and> pathPrefix (New_state fsUp ''a/..'' [FullPathPrefix]) = [] \<and>
   walk_root ''x../y'' = ''.'' \<and> pathPrefix (New_state fsUp ''x../y'' [FullPathPrefix]) = ''x../y'' \<and>
   walk_root ''../x'' = ''.'' \<and> pathPrefix (New_state fsUp ''../x'' [FullPathPrefix]) = ''../x'' \<and>
   fsUp ''.'' = Inr [mkFile ''a''] \<and>
   New 1 fsUp ''..'' [FullPathPrefix] =
     Some (\<lparr>fsys = Some fsUp, tree = [''..''],
             pathPrefix = [], NDirs = 0, NFiles = 0, hidden = False, dirOnly = False,
             fullPathPrefix = True, level = 0\<rparr>, Some (ListError ''..'')) \<and>
   New 1 fsUp ''../x'' [FullPathPrefix] =
     Some (\<lparr>fsys = Some fsUp, tree = [''../x'', elbowConnector @ '' ../x/a''],
             pathPrefix = ''../x'', NDirs = 0, NFiles = 1, hidden = False, dirOnly = False,
             fullPathPrefix = True, level = 0\<rparr>, None)"
  by (simp add: sample_defs fsUp_def walk_root_def New_state_def)

subsection \<open>C9: the root line\<close>

text \<open>
  C9. Whatever a render with the package's options returns, the first line of its tree is
  the root name as supplied, and the counts add up to the number of lines after it, so the
  root is counted in neither. When the listing of the directory the walk starts from has
  no entry that the filter lets through, the render returns without an error the root
  line alone, with both counts 0.
\<close>

theorem New_root_line:
  assumes "\<forall>opt \<in> set opts. package_opt opt" and "New fuel fs name opts = Some (tfs, err)"
  shows "tree tfs \<noteq> [] \<and> hd (tree tfs) = name \<and>
         NDirs tfs + NFiles tfs = int (length (tree tfs)) - 1 \<and>
         (\<forall>es. fs (walk_root name) = Inr es \<and> (\<forall>e \<in> set es. \<not> allow tfs e) \<longrightarrow>
            err = None \<and> tree tfs = [name] \<and> NDirs tfs = 0 \<and> NFiles tfs = 0)"
proof -
  let ?s = "New_state fs name opts"
  note f = New_state_fields [OF assms(1), of fs name]
  from assms(2) have g: "grows ?s tfs" by (rule New_grows)
  from New_counts [OF assms] have c: "take 1 (tree tfs) = [name]"
    and s: "NDirs tfs + NFiles tfs = int (length (tree tfs)) - 1" by simp_all
  from c have ne: "tree tfs \<noteq> []" by auto
  with c have h: "hd (tree tfs) = name" by (cases "tree tfs") simp_all
  have "err = None \<and> tree tfs = [name] \<and> NDirs tfs = 0 \<and> NFiles tfs = 0"
    if es: "fs (walk_root name) = Inr es" and no: "\<forall>e \<in> set es. \<not> allow tfs e" for es
  proof -
    from g have "same_options ?s tfs" by (simp add: grows_def)
    with no have no': "\<forall>e \<in> set es. \<not> allow ?s e" by (simp add: allow_same)
    from assms(2) obtain n where n: "fuel = Suc n"
      unfolding New_walk by (cases fuel) simp_all
    from f es have "treeFSWithPrefix (Suc n) ?s (walk_root name) [] 0 =
        entries_loop (treeFSWithPrefix n) ?s (walk_root name) [] 0 (int (length es)) 0 es"
      by auto
    also have "\<dots> = Some (?s, None)" using no' by (rule entries_loop_none_allowed)
    finally have "tfs = ?s" "err = None" using assms(2) unfolding New_walk n by simp_all
    with f show ?thesis by simp
  qed
  with ne h s show ?thesis by blast
qed

theorem New_root_line_witness:
  "\<exists>tfs. New 1 fsHidden ''.'' [] = Some (tfs, None) \<and> tree tfs = [''.''] \<and>
     NDirs tfs = 0 \<and> NFiles tfs = 0"
proof -
  have e: "New 1 fsHidden ''.'' [] =
     Some (\<lparr>fsys = Some fsHidden, tree = [''.''],
             pathPrefix = ''.'', NDirs = 0, NFiles = 0, hidden = False, dirOnly = False,
             fullPathPrefix = False, level = 0\<rparr>, None)"
    by (simp add: sample_defs fsHidden_def)
  have p: "\<forall>opt \<in> set ([] :: Opt list). package_opt opt" by simp
  have "fsHidden (walk_root ''.'') = Inr [mkFile ''.a'', mkDir ''.git'']"
    by (simp add: walk_root_def fsHidden_def)
  with New_root_line [OF p e] e show ?thesis
    by (simp add: sample_defs)
qed

subsection \<open>C10: the aggregate of no trees\<close>

text \<open>
  C10. \<^verbatim>\<open>NewMulti\<close> with no arguments returns without an error, whatever the bound on
  the walks; the report it returns has no lines, so its graph is the empty string, both
  counts are 0, and its summary reads \<^verbatim>\<open>0 directories, 0 files\<close>.
\<close>

theorem NewMulti_no_args:
  "NewMulti fuel [] = Some (zeroTreeFS, None) \<and> tree zeroTreeFS = [] \<and> Graph zeroTreeFS = [] \<and>
   NDirs zeroTreeFS = 0 \<and> NFiles zeroTreeFS = 0 \<and> Meta zeroTreeFS = ''0 directories, 0 files''"
  by (simp add: NewMulti_def zeroTreeFS_def Graph_def Meta_def itoa_def natToDec.simps)

end
